theory Spec2Isabelle
  imports Main "HOL-Library.Sublist"
begin

section \<open>MediaWiki item discovery: the data the script handles\<close>

text \<open>
  The script \<^verbatim>\<open>mediawiki-item-discovery.py\<close> talks to a wiki over HTTP and reads
  JSON. A decoded JSON value is what \<^verbatim>\<open>response.json()\<close> returns: \<^verbatim>\<open>None\<close>,
  a bool, an int, a str, a list or a dict. A \<open>JObj\<close> holds the items of the dict in
  insertion order (Python keeps that order, and the keys of a decoded object are
  pairwise different). Numbers are the integers; a response with a fractional number is
  outside this model.
\<close>

datatype json =
    JNull
  | JBool bool
  | JNum int
  | JStr string
  | JArr "json list"
  | JObj "(string \<times> json) list"

text \<open>The exceptions the script can run into; none of them is caught anywhere.\<close>

datatype exn =
    KeyError string
  | TypeError
  | AttributeError
  | ValueError
  | JSONDecodeError
  | ConnectionError

text \<open>
  What a call comes to: it returns a value, it raises, or (\<open>Starved\<close>) it asked the
  server for one more reply than the scripted server of this model holds. \<open>Starved\<close>
  is no behaviour of the program: it marks a run the model cannot follow further.
\<close>

datatype 'a outcome = Returns 'a | Raises exn | Starved

fun and_then :: "'a outcome \<Rightarrow> ('a \<Rightarrow> 'b outcome) \<Rightarrow> 'b outcome" where
  "and_then (Returns x) f = f x"
| "and_then (Raises e) f = Raises e"
| "and_then Starved f = Starved"

fun each_outcome :: "('a \<Rightarrow> 'b outcome) \<Rightarrow> 'a list \<Rightarrow> 'b list outcome" where
  "each_outcome f [] = Returns []"
| "each_outcome f (x # xs) =
     and_then (f x) (\<lambda>y. and_then (each_outcome f xs) (\<lambda>ys. Returns (y # ys)))"

subsection \<open>Python's operations on decoded JSON\<close>

text \<open>\<^verbatim>\<open>sub in s\<close> on two strings: \<open>sub\<close> occurs in \<open>s\<close> as a contiguous piece.\<close>

fun substring :: "string \<Rightarrow> string \<Rightarrow> bool" where
  "substring sub [] = (sub = [])"
| "substring sub (c # cs) = (prefix sub (c # cs) \<or> substring sub cs)"

text \<open>\<^verbatim>\<open>v[k]\<close> with a string key \<open>k\<close>: only a dict can be indexed by a string.\<close>

fun subscript :: "json \<Rightarrow> string \<Rightarrow> json outcome" where
  "subscript (JObj kvs) k =
     (case map_of kvs k of Some v \<Rightarrow> Returns v | None \<Rightarrow> Raises (KeyError k))"
| "subscript v k = Raises TypeError"

text \<open>
  \<^verbatim>\<open>k in v\<close> with a string \<open>k\<close>: a key of a dict, an element of a list, a piece of a
  string; the other values are not containers.
\<close>

fun py_in :: "string \<Rightarrow> json \<Rightarrow> bool outcome" where
  "py_in k (JObj kvs) = Returns (k \<in> fst ` set kvs)"
| "py_in k (JArr xs) = Returns (JStr k \<in> set xs)"
| "py_in k (JStr s) = Returns (substring k s)"
| "py_in k v = Raises TypeError"

text \<open>\<^verbatim>\<open>v.items()\<close>, \<^verbatim>\<open>v.values()\<close> and \<^verbatim>\<open>v.get(k, default)\<close> exist on a dict only.\<close>

fun py_items :: "json \<Rightarrow> (string \<times> json) list outcome" where
  "py_items (JObj kvs) = Returns kvs"
| "py_items v = Raises AttributeError"

fun py_values :: "json \<Rightarrow> json list outcome" where
  "py_values (JObj kvs) = Returns (map snd kvs)"
| "py_values v = Raises AttributeError"

fun py_get :: "json \<Rightarrow> string \<Rightarrow> json \<Rightarrow> json outcome" where
  "py_get (JObj kvs) k dflt =
     Returns (case map_of kvs k of Some v \<Rightarrow> v | None \<Rightarrow> dflt)"
| "py_get v k dflt = Raises AttributeError"

text \<open>
  \<^verbatim>\<open>for x in v\<close>: the elements of a list, the one-character strings of a string, the
  keys of a dict.
\<close>

fun py_iter :: "json \<Rightarrow> json list outcome" where
  "py_iter (JArr xs) = Returns xs"
| "py_iter (JStr s) = Returns (map (\<lambda>c. JStr [c]) s)"
| "py_iter (JObj kvs) = Returns (map (\<lambda>kv. JStr (fst kv)) kvs)"
| "py_iter v = Raises TypeError"

fun py_len :: "json \<Rightarrow> nat outcome" where
  "py_len (JArr xs) = Returns (length xs)"
| "py_len (JStr s) = Returns (length s)"
| "py_len (JObj kvs) = Returns (length kvs)"
| "py_len v = Raises TypeError"

text \<open>\<^verbatim>\<open>v < 0\<close>: numbers compare with numbers (a bool is the number 0 or 1).\<close>

fun num_of :: "json \<Rightarrow> int option" where
  "num_of (JNum n) = Some n"
| "num_of (JBool b) = Some (if b then 1 else 0)"
| "num_of v = None"

definition py_negative :: "json \<Rightarrow> bool outcome" where
  "py_negative v = (case num_of v of Some n \<Rightarrow> Returns (n < 0) | None \<Rightarrow> Raises TypeError)"

text \<open>
  Keys of dicts and members of sets are hashable values: everything but lists and
  dicts. Two of them are the same key when Python's \<^verbatim>\<open>==\<close> holds, which identifies
  \<^verbatim>\<open>True\<close> with 1 and \<^verbatim>\<open>False\<close> with 0.
\<close>

fun hashable :: "json \<Rightarrow> bool" where
  "hashable (JArr xs) = False"
| "hashable (JObj kvs) = False"
| "hashable v = True"

definition key_eq :: "json \<Rightarrow> json \<Rightarrow> bool" where
  "key_eq x y =
     (case (num_of x, num_of y) of
        (Some a, Some b) \<Rightarrow> a = b
      | (None, None) \<Rightarrow> x = y
      | _ \<Rightarrow> False)"

text \<open>A Python set of hashable values, as the list of its members (in the order they came).\<close>

definition set_add :: "json \<Rightarrow> json list \<Rightarrow> json list outcome" where
  "set_add x s =
     (if \<not> hashable x then Raises TypeError
      else if list_ex (\<lambda>y. key_eq y x) s then Returns s
      else Returns (s @ [x]))"

fun set_update :: "json list \<Rightarrow> json list \<Rightarrow> json list outcome" where
  "set_update [] s = Returns s"
| "set_update (x # xs) s = and_then (set_add x s) (set_update xs)"

text \<open>
  The parameter dict of a request. \<^verbatim>\<open>d[k] = v\<close> keeps the place and the key object of
  an entry that is there already.
\<close>

type_synonym params = "(json \<times> json) list"

fun dict_set :: "json \<Rightarrow> json \<Rightarrow> params \<Rightarrow> params" where
  "dict_set k v [] = [(k, v)]"
| "dict_set k v ((k', v') # d) =
     (if key_eq k' k then (k', v) # d else (k', v') # dict_set k v d)"

fun dict_get :: "params \<Rightarrow> json \<Rightarrow> json option" where
  "dict_get [] k = None"
| "dict_get ((k', v') # d) k = (if key_eq k' k then Some v' else dict_get d k)"

text \<open>
  \<^verbatim>\<open>d.update(other)\<close>. A dict is merged entry by entry. Any other iterable is read as
  a sequence of key/value pairs: each element has to be a sequence of length two, whose
  first component becomes the key. A value that cannot be iterated is a TypeError.
\<close>

fun pair_of :: "json \<Rightarrow> (json \<times> json) outcome" where
  "pair_of (JArr xs) =
     (case xs of
        [k, v] \<Rightarrow> if hashable k then Returns (k, v) else Raises TypeError
      | _ \<Rightarrow> Raises ValueError)"
| "pair_of (JStr s) =
     (case s of [a, b] \<Rightarrow> Returns (JStr [a], JStr [b]) | _ \<Rightarrow> Raises ValueError)"
| "pair_of (JObj kvs) =
     (case kvs of
        [(k1, v1), (k2, v2)] \<Rightarrow> Returns (JStr k1, JStr k2)
      | _ \<Rightarrow> Raises ValueError)"
| "pair_of v = Raises TypeError"

fun dict_merge :: "params \<Rightarrow> (json \<times> json) list \<Rightarrow> params" where
  "dict_merge d [] = d"
| "dict_merge d ((k, v) # kvs) = dict_merge (dict_set k v d) kvs"

fun dict_update :: "params \<Rightarrow> json \<Rightarrow> params outcome" where
  "dict_update d (JObj kvs) = Returns (dict_merge d (map (\<lambda>(k, v). (JStr k, v)) kvs))"
| "dict_update d other =
     and_then (py_iter other) (\<lambda>xs.
     and_then (each_outcome pair_of xs) (\<lambda>kvs.
     Returns (dict_merge d kvs)))"

text \<open>
  \<^verbatim>\<open>str.replace(old, new)\<close>: every occurrence of \<open>old\<close>, found from the left and not
  overlapping, becomes \<open>new\<close>; an empty \<open>old\<close> matches before every character and at
  the end.
\<close>

fun replace :: "string \<Rightarrow> string \<Rightarrow> string \<Rightarrow> string" where
  "replace [] new s = new @ concat (map (\<lambda>c. c # new) s)"
| "replace (a # old) new [] = []"
| "replace (a # old) new (c # cs) =
     (if prefix (a # old) (c # cs) then new @ replace (a # old) new (drop (length old) cs)
      else c # replace (a # old) new cs)"

text \<open>The decimal numeral of an int, as \<^verbatim>\<open>str\<close> prints it.\<close>

fun digits :: "nat \<Rightarrow> string" where
  "digits n =
     (if n < 10 then [''0123456789'' ! n]
      else digits (n div 10) @ [''0123456789'' ! (n mod 10)])"

definition str_int :: "int \<Rightarrow> string" where
  "str_int i = (if i < 0 then CHR ''-'' # digits (nat (- i)) else digits (nat i))"

subsection \<open>The library functions the script calls\<close>

text \<open>
  Three functions of Python's library are taken as parameters, since their definitions
  are no part of the script:
  \<^item> \<open>urlparse\<close>: the scheme and the network location \<^verbatim>\<open>urllib.parse.urlparse\<close>
    finds in a URL (it raises on some malformed URLs);
  \<^item> \<open>urljoin\<close>: \<^verbatim>\<open>urllib.parse.urljoin\<close> of a base URL and a decoded JSON value;
  \<^item> \<open>py_repr\<close>: the text \<^verbatim>\<open>str\<close> gives for a list or a dict.
\<close>

record pylib =
  urlparse :: "string \<Rightarrow> (string \<times> string) outcome"
  urljoin :: "string \<Rightarrow> json \<Rightarrow> string outcome"
  py_repr :: "json \<Rightarrow> string"

text \<open>A value inside an f-string: a string stands for itself, anything else is printed.\<close>

fun py_str :: "pylib \<Rightarrow> json \<Rightarrow> string" where
  "py_str lib (JStr s) = s"
| "py_str lib (JNum i) = str_int i"
| "py_str lib (JBool b) = (if b then ''True'' else ''False'')"
| "py_str lib JNull = ''None''"
| "py_str lib v = py_repr lib v"

subsection \<open>The world: the server, what the script did, and its one global\<close>

text \<open>
  A fetched page, as the script looks at it. BeautifulSoup is asked for \<^verbatim>\<open>link\<close>
  elements only: \<open>page_links\<close> lists them in document order, each with the tokens of
  its \<^verbatim>\<open>rel\<close> attribute and its \<^verbatim>\<open>href\<close> attribute, if it has one. \<open>json_body\<close> is
  what \<^verbatim>\<open>response.json()\<close> decodes, or \<open>None\<close> when the body is not JSON.
\<close>

record link =
  rel :: "string list"
  href :: "string option"

record response =
  page_links :: "link list"
  json_body :: "json option"

text \<open>The server answers a request with a response, or the transport fails.\<close>

datatype reply = Reply response | Broken

text \<open>
  What the script does to the outside, in the order it does it. Console output is kept
  as the message and its arguments, not as the printed text.
\<close>

datatype message =
    Version
  | TryingToFindApi
  | TryingEditURI
  | TryingLoadPhp
  | FailedToFindApi
  | UsingApi string
  | FoundNamespaces int
  | TemplateUrl string
  | GettingPages json json
  | GotArticles nat
  | FindingMedia
  | FoundMedia nat
  | FindingSpecialPages
  | FoundSpecialPages nat

datatype event =
    Get string params
  | Sleep int
  | Print message
  | Save "string list"

text \<open>
  The world holds the replies the server will give to the requests still to come, the
  events so far, and the module's global \<^verbatim>\<open>delaySeconds\<close>.
\<close>

datatype world = World (replies: "reply list") (trace: "event list") (delaySeconds: int)

fun emit :: "event \<Rightarrow> world \<Rightarrow> world" where
  "emit e (World rs tr d) = World rs (tr @ [e]) d"

text \<open>\<^verbatim>\<open>requests.get(url, params=params)\<close> takes the next reply of the server.\<close>

fun requests_get :: "string \<Rightarrow> params \<Rightarrow> world \<Rightarrow> response outcome \<times> world" where
  "requests_get u ps (World [] tr d) = (Starved, World [] (tr @ [Get u ps]) d)"
| "requests_get u ps (World (Reply r # rs) tr d) = (Returns r, World rs (tr @ [Get u ps]) d)"
| "requests_get u ps (World (Broken # rs) tr d) =
     (Raises ConnectionError, World rs (tr @ [Get u ps]) d)"

definition response_json :: "response \<Rightarrow> json outcome" where
  "response_json r =
     (case json_body r of Some j \<Rightarrow> Returns j | None \<Rightarrow> Raises JSONDecodeError)"

section \<open>The script\<close>

text \<open>\<^verbatim>\<open>delay()\<close> sleeps for the global number of seconds.\<close>

fun delay :: "world \<Rightarrow> world" where
  "delay (World rs tr d) = World rs (tr @ [Sleep d]) d"

text \<open>The decorator \<^verbatim>\<open>@rate_limited()\<close>: the wrapper pauses, then calls the function.\<close>

definition rate_limited :: "(world \<Rightarrow> 'a) \<Rightarrow> world \<Rightarrow> 'a" where
  "rate_limited func w = func (delay w)"

text \<open>
  \<^verbatim>\<open>save_items\<close> appends one line per item to \<^verbatim>\<open>items.txt\<close>. Writing the file and
  printing to the console are taken to succeed.
\<close>

definition save_items :: "string list \<Rightarrow> world \<Rightarrow> world" where
  "save_items items w = emit (Save items) w"

subsection \<open>Finding the API endpoint\<close>

text \<open>
  \<^verbatim>\<open>soup.find('link', rel=r)\<close> is the first \<^verbatim>\<open>link\<close> element one of whose \<^verbatim>\<open>rel\<close>
  tokens is \<open>r\<close>.
\<close>

definition soup_find :: "string \<Rightarrow> response \<Rightarrow> link option" where
  "soup_find r page = find (\<lambda>l. r \<in> set (rel l)) (page_links page)"

text \<open>The stylesheet fallback: the rest of \<^verbatim>\<open>get_api_url\<close> after the pause.\<close>

definition css_fallback :: "pylib \<Rightarrow> response \<Rightarrow> string option outcome" where
  "css_fallback lib page =
     (case soup_find ''stylesheet'' page of
        None \<Rightarrow> Returns None
      | Some css_link \<Rightarrow>
          (case href css_link of
             None \<Rightarrow> Returns None
           | Some css_url \<Rightarrow>
               and_then (urlparse lib css_url) (\<lambda>(scheme, netloc).
               Returns (Some (scheme @ ''://'' @ netloc @ ''/api.php'')))))"

definition get_api_url :: "pylib \<Rightarrow> string \<Rightarrow> world \<Rightarrow> string option outcome \<times> world" where
  "get_api_url lib wiki_url w =
     (if substring ''api.php'' wiki_url then (Returns (Some wiki_url), w)
      else
        (case requests_get wiki_url [] (emit (Print TryingEditURI) w) of
           (Returns page, w1) \<Rightarrow>
             (case soup_find ''EditURI'' page of
                Some l \<Rightarrow>
                  (case href l of
                     Some api_url \<Rightarrow> (Returns (Some (takeWhile (\<lambda>c. c \<noteq> CHR ''?'') api_url)), w1)
                   | None \<Rightarrow> (Raises (KeyError ''href''), w1))
              | None \<Rightarrow>
                  (let w2 = emit (Print TryingLoadPhp) (delay w1)
                   in (css_fallback lib page, w2)))
         | (Raises e, w1) \<Rightarrow> (Raises e, w1)
         | (Starved, w1) \<Rightarrow> (Starved, w1)))"

subsection \<open>The site descriptor\<close>

definition get_site_info :: "string \<Rightarrow> world \<Rightarrow> (json \<times> json) outcome \<times> world" where
  "get_site_info api_url =
     rate_limited (\<lambda>w.
       (let params =
              [(JStr ''action'', JStr ''query''),
               (JStr ''meta'', JStr ''siteinfo''),
               (JStr ''siprop'', JStr ''general|namespaces''),
               (JStr ''format'', JStr ''json'')]
        in case requests_get api_url params w of
             (Returns response, w1) \<Rightarrow>
               (and_then (response_json response) (\<lambda>data.
                and_then (subscript data ''query'') (\<lambda>q.
                and_then (subscript q ''general'') (\<lambda>site_info.
                and_then (subscript data ''query'') (\<lambda>q'.
                and_then (subscript q' ''namespaces'') (\<lambda>namespaces.
                Returns (site_info, namespaces)))))), w1)
           | (Raises e, w1) \<Rightarrow> (Raises e, w1)
           | (Starved, w1) \<Rightarrow> (Starved, w1)))"

subsection \<open>The paginated listings\<close>

text \<open>
  The f-strings that turn a listing entry into an item. \<open>article_item\<close> is applied to
  the \<^verbatim>\<open>page_info\<close> of one page, \<open>media_item\<close> to one \<^verbatim>\<open>image\<close>, \<open>special_item\<close> to
  one name of the set of special pages.
\<close>

definition article_item :: "pylib \<Rightarrow> json \<Rightarrow> string outcome" where
  "article_item lib page_info =
     and_then (subscript page_info ''fullurl'') (\<lambda>v.
     Returns (''mediawiki-article:'' @ py_str lib v))"

definition media_item :: "pylib \<Rightarrow> json \<Rightarrow> string outcome" where
  "media_item lib img =
     and_then (subscript img ''url'') (\<lambda>v.
     Returns (''mediawiki-media:'' @ py_str lib v))"

definition special_item :: "pylib \<Rightarrow> string \<Rightarrow> json \<Rightarrow> string" where
  "special_item lib template_url special_page =
     ''mediawiki-special:'' @ replace ''$1'' (''Special:'' @ py_str lib special_page) template_url"

text \<open>
  The block \<^verbatim>\<open>if 'query' in data: for ... in ...: append(...)\<close> of each walk: the
  items one reply adds.
\<close>

definition page_entries :: "pylib \<Rightarrow> json \<Rightarrow> string list outcome" where
  "page_entries lib data =
     and_then (py_in ''query'' data) (\<lambda>has_query.
     if has_query then
       and_then (subscript data ''query'') (\<lambda>q.
       and_then (subscript q ''pages'') (\<lambda>pages.
       and_then (py_items pages) (\<lambda>kvs.
       each_outcome (\<lambda>(page_id, page_info). article_item lib page_info) kvs)))
     else Returns [])"

definition image_entries :: "pylib \<Rightarrow> json \<Rightarrow> string list outcome" where
  "image_entries lib data =
     and_then (py_in ''query'' data) (\<lambda>has_query.
     if has_query then
       and_then (subscript data ''query'') (\<lambda>q.
       and_then (subscript q ''allimages'') (\<lambda>allimages.
       and_then (py_iter allimages) (\<lambda>images.
       each_outcome (media_item lib) images)))
     else Returns [])"

text \<open>
  The end of the loop body, the same text in both walks:
  \<^verbatim>\<open>
  if 'continue' in data:
      params.update(data['continue'])
  elif 'query-continue' in data:
      params.update(data['query-continue']['categories'])
  else:
      break
  \<close>
  \<open>continuation\<close> is the object the taken branch hands to \<^verbatim>\<open>params.update\<close>
  (\<open>None\<close> in the \<^verbatim>\<open>else\<close> branch); \<open>next_params\<close> is the whole statement:
  \<open>None\<close> is the \<^verbatim>\<open>break\<close>, otherwise the parameters of the next request.
\<close>

definition continuation :: "json \<Rightarrow> json option outcome" where
  "continuation data =
     and_then (py_in ''continue'' data) (\<lambda>modern.
     if modern then
       and_then (subscript data ''continue'') (\<lambda>c. Returns (Some c))
     else
       and_then (py_in ''query-continue'' data) (\<lambda>legacy.
       if legacy then
         and_then (subscript data ''query-continue'') (\<lambda>qc.
         and_then (subscript qc ''categories'') (\<lambda>c. Returns (Some c)))
       else Returns None))"

definition next_params :: "params \<Rightarrow> json \<Rightarrow> params option outcome" where
  "next_params params data =
     and_then (continuation data) (\<lambda>c.
     case c of
       Some other \<Rightarrow> and_then (dict_update params other) (\<lambda>params'. Returns (Some params'))
     | None \<Rightarrow> Returns None)"

text \<open>
  The \<^verbatim>\<open>while True\<close> loop. The two walks of the script have the same loop but for
  the block that reads the entries of a reply and for the progress message; the model
  writes the loop once, with these two as \<open>entries\<close> and \<open>progress\<close>. One round takes
  one reply of the server, so the loop is defined by recursion on the replies left.
\<close>

function walk ::
  "(json \<Rightarrow> string list outcome) \<Rightarrow> (nat \<Rightarrow> message) \<Rightarrow> string \<Rightarrow> params \<Rightarrow> string list
     \<Rightarrow> world \<Rightarrow> string list outcome \<times> world" where
  "walk entries progress api_url params found (World [] tr d) =
     (Starved, snd (requests_get api_url params (World [] tr d)))"
| "walk entries progress api_url params found (World (r # rs) tr d) =
     (case requests_get api_url params (World (r # rs) tr d) of
        (Returns response, w1) \<Rightarrow>
          (case and_then (response_json response) (\<lambda>data.
                and_then (entries data) (\<lambda>new. Returns (data, found @ new))) of
             Returns (data, found') \<Rightarrow>
               (let w2 = delay (emit (Print (progress (length found'))) w1)
                in case next_params params data of
                     Returns (Some params') \<Rightarrow> walk entries progress api_url params' found' w2
                   | Returns None \<Rightarrow> (Returns found', w2)
                   | Raises e \<Rightarrow> (Raises e, w2)
                   | Starved \<Rightarrow> (Starved, w2))
           | Raises e \<Rightarrow> (Raises e, w1)
           | Starved \<Rightarrow> (Starved, w1))
      | (Raises e, w1) \<Rightarrow> (Raises e, w1)
      | (Starved, w1) \<Rightarrow> (Starved, w1))"
  by pat_completeness auto
termination
proof (relation "measure (\<lambda>(entries, progress, api_url, params, found, w). length (replies w))")
  show "wf (measure (\<lambda>(entries, progress, api_url, params, found, w). length (replies w)))"
    by simp
next
  fix entries :: "json \<Rightarrow> string list outcome" and progress :: "nat \<Rightarrow> message"
    and api_url :: string and params params' :: params and found found' :: "string list"
    and r rs tr d x1 w1 response w2
  assume "(x1, w1) = requests_get api_url params (World (r # rs) tr d)"
    and "x1 = Returns response"
    and "w2 = delay (emit (Print (progress (length found'))) w1)"
  then have "replies w2 = rs"
    by (cases r) auto
  then show "((entries, progress, api_url, params', found', w2),
              (entries, progress, api_url, params, found, World (r # rs) tr d))
             \<in> measure (\<lambda>(entries, progress, api_url, params, found, w). length (replies w))"
    by simp
qed

definition pages_params :: "json \<Rightarrow> params" where
  "pages_params gapnamespace =
     [(JStr ''action'', JStr ''query''),
      (JStr ''generator'', JStr ''allpages''),
      (JStr ''gapnamespace'', gapnamespace),
      (JStr ''gaplimit'', JStr ''50''),
      (JStr ''prop'', JStr ''info''),
      (JStr ''inprop'', JStr ''url''),
      (JStr ''format'', JStr ''json''),
      (JStr ''continue'', JStr [])]"

definition get_all_pages ::
  "pylib \<Rightarrow> string \<Rightarrow> json \<Rightarrow> world \<Rightarrow> string list outcome \<times> world" where
  "get_all_pages lib api_url gapnamespace w =
     walk (page_entries lib) GotArticles api_url (pages_params gapnamespace) [] w"

definition images_params :: params where
  "images_params =
     [(JStr ''action'', JStr ''query''),
      (JStr ''list'', JStr ''allimages''),
      (JStr ''aiprop'', JStr ''url''),
      (JStr ''ailimit'', JStr ''50''),
      (JStr ''format'', JStr ''json''),
      (JStr ''continue'', JStr [])]"

definition get_all_images :: "pylib \<Rightarrow> string \<Rightarrow> world \<Rightarrow> string list outcome \<times> world" where
  "get_all_images lib api_url w =
     walk (image_entries lib) FoundMedia api_url images_params [] w"

subsection \<open>Special pages\<close>

text \<open>
  The first loop of \<^verbatim>\<open>get_special_pages\<close>: the set of names, one entry after the
  other.
\<close>

definition add_entry :: "json \<Rightarrow> json list \<Rightarrow> json list outcome" where
  "add_entry entry special_pages =
     and_then (subscript entry ''realname'') (\<lambda>realname.
     and_then (set_add realname special_pages) (\<lambda>s1.
     and_then (py_get entry ''aliases'' (JArr [])) (\<lambda>aliases.
     and_then (py_iter aliases) (\<lambda>names.
     set_update names s1))))"

fun collect_names :: "json list \<Rightarrow> json list \<Rightarrow> json list outcome" where
  "collect_names [] special_pages = Returns special_pages"
| "collect_names (entry # entries) special_pages =
     and_then (add_entry entry special_pages) (collect_names entries)"

text \<open>
  The second loop builds the set of items. A Python set has no order a program may rely
  on; the model lists its members without repetition, and the theorems about it speak of
  the members only.
\<close>

definition special_items :: "pylib \<Rightarrow> string \<Rightarrow> json \<Rightarrow> string list outcome" where
  "special_items lib template_url data =
     and_then (subscript data ''query'') (\<lambda>q.
     and_then (subscript q ''specialpagealiases'') (\<lambda>special_pages_raw.
     and_then (subscript data ''query'') (\<lambda>q'.
     and_then (subscript q' ''specialpagealiases'') (\<lambda>aliases.
     and_then (py_iter aliases) (\<lambda>entries.
     and_then (collect_names entries []) (\<lambda>special_pages.
     Returns (remdups (map (special_item lib template_url) special_pages))))))))"

definition get_special_pages ::
  "pylib \<Rightarrow> string \<Rightarrow> string \<Rightarrow> world \<Rightarrow> string list outcome \<times> world" where
  "get_special_pages lib api_url template_url =
     rate_limited (\<lambda>w.
       (let params =
              [(JStr ''action'', JStr ''query''),
               (JStr ''meta'', JStr ''siteinfo''),
               (JStr ''siprop'', JStr ''specialpagealiases''),
               (JStr ''format'', JStr ''json'')]
        in case requests_get api_url params w of
             (Returns response, w1) \<Rightarrow>
               (case and_then (response_json response) (special_items lib template_url) of
                  Returns items \<Rightarrow>
                    (Returns items, emit (Print (FoundSpecialPages (length items))) w1)
                | Raises e \<Rightarrow> (Raises e, w1)
                | Starved \<Rightarrow> (Starved, w1))
           | (Raises e, w1) \<Rightarrow> (Raises e, w1)
           | (Starved, w1) \<Rightarrow> (Starved, w1)))"

subsection \<open>The orchestrator\<close>

text \<open>
  The loop \<^verbatim>\<open>for ns in namespaces.values()\<close> of \<^verbatim>\<open>main\<close>, over the values in the
  order of the table.
\<close>

fun namespaces_loop :: "pylib \<Rightarrow> string \<Rightarrow> json list \<Rightarrow> world \<Rightarrow> unit outcome \<times> world" where
  "namespaces_loop lib api_url [] w = (Returns (), w)"
| "namespaces_loop lib api_url (ns # nss) w =
     (case and_then (subscript ns ''id'') (\<lambda>i.
           and_then (py_negative i) (\<lambda>neg. Returns (i, neg))) of
        Returns (i, neg) \<Rightarrow>
          if neg then namespaces_loop lib api_url nss w
          else
            (case py_get ns ''canonical'' (JStr []) of
               Returns canonical \<Rightarrow>
                 (case get_all_pages lib api_url i (emit (Print (GettingPages i canonical)) w) of
                    (Returns pages, w1) \<Rightarrow> namespaces_loop lib api_url nss (save_items pages w1)
                  | (Raises e, w1) \<Rightarrow> (Raises e, w1)
                  | (Starved, w1) \<Rightarrow> (Starved, w1))
             | Raises e \<Rightarrow> (Raises e, w)
             | Starved \<Rightarrow> (Starved, w))
      | Raises e \<Rightarrow> (Raises e, w)
      | Starved \<Rightarrow> (Starved, w))"

text \<open>\<^verbatim>\<open>main\<close> from the line \<^verbatim>\<open>print("\nFinding media items")\<close> to its end.\<close>

definition media_and_special ::
  "pylib \<Rightarrow> string \<Rightarrow> string \<Rightarrow> world \<Rightarrow> unit outcome \<times> world" where
  "media_and_special lib api_url template_url w =
     (case get_all_images lib api_url (emit (Print FindingMedia) w) of
        (Returns images, w1) \<Rightarrow>
          (case get_special_pages lib api_url template_url
                  (emit (Print FindingSpecialPages) (save_items images w1)) of
             (Returns items, w2) \<Rightarrow> (Returns (), save_items items w2)
           | (Raises e, w2) \<Rightarrow> (Raises e, w2)
           | (Starved, w2) \<Rightarrow> (Starved, w2))
      | (Raises e, w1) \<Rightarrow> (Raises e, w1)
      | (Starved, w1) \<Rightarrow> (Starved, w1))"

text \<open>
  \<^verbatim>\<open>main\<close> after the endpoint is known: from \<^verbatim>\<open>get_site_info(api_url)\<close> on.
\<close>

definition discover :: "pylib \<Rightarrow> string \<Rightarrow> world \<Rightarrow> unit outcome \<times> world" where
  "discover lib api_url w =
     (case get_site_info api_url (emit (Print (UsingApi api_url)) w) of
        (Returns (site_info, namespaces), w1) \<Rightarrow>
          (case and_then (subscript site_info ''server'') (\<lambda>server.
                and_then (urljoin lib api_url server) (\<lambda>server_url.
                and_then (subscript site_info ''articlepath'') (\<lambda>articlepath.
                and_then (urljoin lib server_url articlepath) (\<lambda>template_url.
                and_then (py_len namespaces) (\<lambda>n.
                Returns (template_url, n)))))) of
             Returns (template_url, n) \<Rightarrow>
               (let w2 = emit (Print (TemplateUrl template_url))
                           (emit (Print (FoundNamespaces (int n - 2))) w1)
                in case py_values namespaces of
                     Returns nss \<Rightarrow>
                       (case namespaces_loop lib api_url nss w2 of
                          (Returns u, w3) \<Rightarrow> media_and_special lib api_url template_url w3
                        | (Raises e, w3) \<Rightarrow> (Raises e, w3)
                        | (Starved, w3) \<Rightarrow> (Starved, w3))
                   | Raises e \<Rightarrow> (Raises e, w2)
                   | Starved \<Rightarrow> (Starved, w2))
           | Raises e \<Rightarrow> (Raises e, w1)
           | Starved \<Rightarrow> (Starved, w1))
      | (Raises e, w1) \<Rightarrow> (Raises e, w1)
      | (Starved, w1) \<Rightarrow> (Starved, w1))"

definition main :: "pylib \<Rightarrow> string \<Rightarrow> world \<Rightarrow> unit outcome \<times> world" where
  "main lib wiki_url w =
     (case get_api_url lib wiki_url (emit (Print TryingToFindApi) w) of
        (Returns api, w1) \<Rightarrow>
          (case api of
             None \<Rightarrow> (Returns (), emit (Print FailedToFindApi) w1)
           | Some api_url \<Rightarrow>
               if api_url = [] then (Returns (), emit (Print FailedToFindApi) w1)
               else discover lib api_url w1)
      | (Raises e, w1) \<Rightarrow> (Raises e, w1)
      | (Starved, w1) \<Rightarrow> (Starved, w1))"

text \<open>
  The block under \<^verbatim>\<open>if __name__ == "__main__"\<close>. \<open>args\<close> is what
  \<^verbatim>\<open>parser.parse_args()\<close> returns: the positional \<^verbatim>\<open>url\<close> and the value of
  \<^verbatim>\<open>--delay\<close> (a string, since the flag declares no type; \<open>None\<close> when the flag is
  not given). The module sets \<^verbatim>\<open>delaySeconds = 0\<close> when it is loaded. The run starts
  with no event yet and the server's replies ahead.
\<close>

record args =
  url :: string
  delay_flag :: "string option"

definition script :: "pylib \<Rightarrow> args \<Rightarrow> reply list \<Rightarrow> unit outcome \<times> world" where
  "script lib a server = main lib (url a) (emit (Print Version) (World server [] 0))"

subsection \<open>A library for the examples\<close>

text \<open>
  The examples below need some library to run with. \<open>example_lib\<close> does what urllib
  does on the URLs of the examples: an absolute URL \<^verbatim>\<open>scheme://netloc/path\<close> is split
  at \<^verbatim>\<open>://\<close> and at the first of \<^verbatim>\<open>/\<close>, \<^verbatim>\<open>?\<close>, \<^verbatim>\<open>#\<close> after it; joining a base
  with a path that starts with \<^verbatim>\<open>/\<close> keeps the scheme and netloc of the base, and
  joining it with an absolute URL gives that URL. It is used in examples only.
\<close>

definition example_urlparse :: "string \<Rightarrow> (string \<times> string) outcome" where
  "example_urlparse u =
     (let scheme = takeWhile (\<lambda>c. c \<noteq> CHR '':'') u;
          rest = dropWhile (\<lambda>c. c \<noteq> CHR '':'') u
      in if prefix ''://'' rest
         then Returns (scheme, takeWhile (\<lambda>c. c \<notin> set ''/?#'') (drop 3 rest))
         else Returns ([], []))"

definition example_urljoin :: "string \<Rightarrow> json \<Rightarrow> string outcome" where
  "example_urljoin base v =
     (case v of
        JStr s \<Rightarrow>
          (if s = [] then Returns base
           else if prefix ''/'' s then
             and_then (example_urlparse base) (\<lambda>(scheme, netloc).
             Returns (scheme @ ''://'' @ netloc @ s))
           else Returns s)
      | JNull \<Rightarrow> Returns base
      | _ \<Rightarrow> Raises TypeError)"

definition example_lib :: pylib where
  "example_lib =
     \<lparr>urlparse = example_urlparse, urljoin = example_urljoin, py_repr = (\<lambda>v. ''?'')\<rparr>"

section \<open>What is observed of a run\<close>

text \<open>
  The theorems read a run off the trace. \<open>added w w'\<close> are the events between the
  world \<open>w\<close> a call starts in and the world \<open>w'\<close> it leaves; \<open>requests\<close> are the
  parameter dicts of the requests among some events, in the order they were sent.
\<close>

definition added :: "world \<Rightarrow> world \<Rightarrow> event list" where
  "added w w' = drop (length (trace w)) (trace w')"

fun requests :: "event list \<Rightarrow> params list" where
  "requests [] = []"
| "requests (Get u ps # es) = ps # requests es"
| "requests (e # es) = requests es"

text \<open>
  \<open>scripted ok rs\<close>: every reply of the server \<open>rs\<close> that decodes as JSON satisfies
  \<open>ok\<close>. \<open>untouched k data\<close>: the continuation of the reply \<open>data\<close>, if it has one,
  is an object that does not name the parameter \<open>k\<close>.
\<close>

definition scripted :: "(json \<Rightarrow> bool) \<Rightarrow> reply list \<Rightarrow> bool" where
  "scripted ok rs =
     list_all (\<lambda>r. case r of
                  Reply resp \<Rightarrow> (case json_body resp of Some data \<Rightarrow> ok data | None \<Rightarrow> True)
                | Broken \<Rightarrow> True) rs"

definition untouched :: "string \<Rightarrow> json \<Rightarrow> bool" where
  "untouched k data =
     (case continuation data of
        Returns (Some (JObj kvs)) \<Rightarrow> k \<notin> fst ` set kvs
      | Returns (Some other) \<Rightarrow> False
      | _ \<Rightarrow> True)"

text \<open>
  What holds of the requests \<open>reqs\<close> of one walk that starts with the parameters
  \<open>first\<close> against the server \<open>rs\<close>, with \<open>limit\<close> the name of the walk's limit
  parameter: there is a first request and it carries \<open>first\<close>; every request has the
  limit parameter and the \<^verbatim>\<open>continue\<close> parameter; the limit is 50 throughout if no
  continuation of the server names it; \<^verbatim>\<open>continue\<close> is empty throughout if no
  continuation of the server names it.
\<close>

definition limit_and_continue :: "string \<Rightarrow> params \<Rightarrow> reply list \<Rightarrow> params list \<Rightarrow> bool" where
  "limit_and_continue limit first rs reqs \<longleftrightarrow>
     reqs \<noteq> [] \<and> hd reqs = first
     \<and> (\<forall>ps\<in>set reqs. dict_get ps (JStr limit) \<noteq> None \<and> dict_get ps (JStr ''continue'') \<noteq> None)
     \<and> (scripted (untouched limit) rs \<longrightarrow>
          (\<forall>ps\<in>set reqs. dict_get ps (JStr limit) = Some (JStr ''50'')))
     \<and> (scripted (untouched ''continue'') rs \<longrightarrow>
          (\<forall>ps\<in>set reqs. dict_get ps (JStr ''continue'') = Some (JStr [])))"

text \<open>
  \<open>visited\<close> are the namespace ids the orchestrator announced (it prints
  \<^verbatim>\<open>Getting pages in namespace ...\<close> right before it calls \<^verbatim>\<open>get_all_pages\<close> for that
  namespace), and \<open>sleeps\<close> the lengths of the pauses, both in the order of the events.
\<close>

fun visited :: "event list \<Rightarrow> json list" where
  "visited [] = []"
| "visited (Print (GettingPages i c) # es) = i # visited es"
| "visited (e # es) = visited es"

fun sleeps :: "event list \<Rightarrow> int list" where
  "sleeps [] = []"
| "sleeps (Sleep s # es) = s # sleeps es"
| "sleeps (e # es) = sleeps es"

text \<open>
  A namespace is \<open>skipped\<close> when its \<^verbatim>\<open>id\<close> can be read and is negative. \<open>to_visit\<close>
  are the ids of a table, in the order of the table, that can be read and are not
  negative.
\<close>

definition skipped :: "json \<Rightarrow> bool" where
  "skipped ns \<longleftrightarrow> and_then (subscript ns ''id'') py_negative = Returns True"

fun to_visit :: "json list \<Rightarrow> json list" where
  "to_visit [] = []"
| "to_visit (ns # nss) =
     (case subscript ns ''id'' of
        Returns i \<Rightarrow> if py_negative i = Returns False then i # to_visit nss else to_visit nss
      | _ \<Rightarrow> to_visit nss)"

text \<open>
  A walk pauses at the end of every round, so every request of a walk but its first comes
  right after a pause. \<open>walk_starts b es\<close> are the parameters of the requests among
  \<open>es\<close> that do not come right after a pause: the first requests of the walks
  (\<open>b\<close> says whether a pause came right before \<open>es\<close>, and \<open>asleep b es\<close> whether one
  comes right after). \<open>saves\<close> are the batches of items handed to \<^verbatim>\<open>save_items\<close>.
\<close>

fun asleep :: "bool \<Rightarrow> event list \<Rightarrow> bool" where
  "asleep b [] = b"
| "asleep b (Sleep s # es) = asleep True es"
| "asleep b (e # es) = asleep False es"

fun walk_starts :: "bool \<Rightarrow> event list \<Rightarrow> params list" where
  "walk_starts b [] = []"
| "walk_starts b (Get u ps # es) = (if b then walk_starts False es else ps # walk_starts False es)"
| "walk_starts b (Sleep s # es) = walk_starts True es"
| "walk_starts b (e # es) = walk_starts False es"

fun saves :: "event list \<Rightarrow> string list list" where
  "saves [] = []"
| "saves (Save items # es) = items # saves es"
| "saves (e # es) = saves es"

text \<open>
  The enumeration as the specification words it: \<^emph>\<open>iterate every namespace of the table
  in table order, skipping any namespace with a negative id, running one walk per
  namespace and emitting its items before moving to the next\<close>. \<open>to_walk\<close> are the
  namespaces left after the skipping, each with its id and its canonical name, and
  \<open>walk_each\<close> announces, walks and saves them one after the other. A namespace is
  \<open>readable\<close> when its \<^verbatim>\<open>id\<close> is there and is a number.
\<close>

definition readable :: "json \<Rightarrow> bool" where
  "readable ns \<longleftrightarrow>
     (case and_then (subscript ns ''id'') py_negative of Returns neg \<Rightarrow> True | _ \<Rightarrow> False)"

fun to_walk :: "json list \<Rightarrow> (json \<times> json) list" where
  "to_walk [] = []"
| "to_walk (ns # nss) =
     (case and_then (subscript ns ''id'') (\<lambda>i.
           and_then (py_negative i) (\<lambda>neg.
           and_then (py_get ns ''canonical'' (JStr [])) (\<lambda>c. Returns (i, neg, c)))) of
        Returns (i, neg, c) \<Rightarrow> if neg then to_walk nss else (i, c) # to_walk nss
      | _ \<Rightarrow> to_walk nss)"

fun walk_each :: "pylib \<Rightarrow> string \<Rightarrow> (json \<times> json) list \<Rightarrow> world \<Rightarrow> unit outcome \<times> world" where
  "walk_each lib api_url [] w = (Returns (), w)"
| "walk_each lib api_url ((i, c) # ics) w =
     (case get_all_pages lib api_url i (emit (Print (GettingPages i c)) w) of
        (Returns pages, w1) \<Rightarrow> walk_each lib api_url ics (save_items pages w1)
      | (Raises e, w1) \<Rightarrow> (Raises e, w1)
      | (Starved, w1) \<Rightarrow> (Starved, w1))"

subsection \<open>Replies for the examples\<close>

text \<open>
  Replies as MediaWiki gives them. \<open>last_page\<close> is a page of articles with no
  continuation; \<open>modern_page\<close> carries the continuation of the modern protocol (which
  itself has a \<^verbatim>\<open>continue\<close> member); \<open>legacy_page\<close> carries the continuation of the
  protocol before MediaWiki 1.21, keyed by the module \<^verbatim>\<open>allpages\<close>; \<open>hollow_page\<close> has
  a \<^verbatim>\<open>query\<close> member with nothing in it; \<open>empty_page\<close> and \<open>no_query_page\<close> have no
  \<^verbatim>\<open>query\<close> member, the second with a continuation.
\<close>

definition api :: string where
  "api = ''https://wiki.example/w/api.php''"

definition json_reply :: "json \<Rightarrow> reply" where
  "json_reply data = Reply \<lparr>page_links = [], json_body = Some data\<rparr>"

definition pages_A :: json where
  "pages_A =
     JObj [(''11'', JObj [(''pageid'', JNum 11),
                          (''fullurl'', JStr ''https://wiki.example/wiki/A'')])]"

definition last_page :: reply where
  "last_page =
     json_reply (JObj [(''batchcomplete'', JStr []), (''query'', JObj [(''pages'', pages_A)])])"

definition modern_page :: reply where
  "modern_page = json_reply (JObj
     [(''continue'', JObj [(''gapcontinue'', JStr ''B''), (''continue'', JStr ''gapcontinue||'')]),
      (''query'', JObj [(''pages'', pages_A)])])"

definition legacy_page :: reply where
  "legacy_page = json_reply (JObj
     [(''query-continue'', JObj [(''allpages'', JObj [(''gapcontinue'', JStr ''B'')])]),
      (''query'', JObj [(''pages'', pages_A)])])"

definition hollow_page :: reply where
  "hollow_page = json_reply (JObj
     [(''continue'', JObj [(''gapcontinue'', JStr ''B''), (''continue'', JStr ''gapcontinue||'')]),
      (''query'', JObj [])])"

definition empty_page :: reply where
  "empty_page = json_reply (JObj [(''batchcomplete'', JStr [])])"

definition no_query_page :: reply where
  "no_query_page = json_reply (JObj
     [(''continue'', JObj [(''gapcontinue'', JStr ''B''), (''continue'', JStr ''gapcontinue||'')])])"

definition media_page :: reply where
  "media_page = json_reply (JObj
     [(''batchcomplete'', JStr []),
      (''query'', JObj [(''allimages'',
         JArr [JObj [(''name'', JStr ''A.png''),
                     (''url'', JStr ''https://wiki.example/images/A.png'')]])])])"

definition export_entry :: json where
  "export_entry = JObj [(''realname'', JStr ''Export''), (''aliases'', JArr [JStr ''ExportPages''])]"

definition aliases_reply :: "json list \<Rightarrow> reply" where
  "aliases_reply entries =
     json_reply (JObj [(''query'', JObj [(''specialpagealiases'', JArr entries)])])"

text \<open>
  Two pages for the endpoint resolver, both without an \<^verbatim>\<open>EditURI\<close> link: \<open>css_page\<close>
  links a stylesheet, \<open>bare_css_page\<close> has a stylesheet link without \<^verbatim>\<open>href\<close>. Then the
  namespace table \<^verbatim>\<open>{0: Main, -1: Special, 2: Talk}\<close>, the reply to the site query
  that holds it, and a server for one whole run: the site, one page of articles for each
  of the two namespaces walked, one page of media and the special pages.
\<close>

definition css_page :: response where
  "css_page =
     \<lparr>page_links =
        [\<lparr>rel = [''shortcut'', ''icon''], href = Some ''/favicon.ico''\<rparr>,
         \<lparr>rel = [''stylesheet''], href = Some ''https://wiki.example/skins/common/load.css''\<rparr>],
      json_body = None\<rparr>"

definition bare_css_page :: response where
  "bare_css_page = \<lparr>page_links = [\<lparr>rel = [''stylesheet''], href = None\<rparr>], json_body = None\<rparr>"

definition example_namespaces :: "json list" where
  "example_namespaces =
     [JObj [(''id'', JNum 0), (''canonical'', JStr ''Main'')],
      JObj [(''id'', JNum (- 1)), (''canonical'', JStr ''Special'')],
      JObj [(''id'', JNum 2), (''canonical'', JStr ''Talk'')]]"

definition site_reply :: reply where
  "site_reply = json_reply (JObj
     [(''batchcomplete'', JStr []),
      (''query'', JObj
         [(''general'', JObj [(''sitename'', JStr ''Example''),
                              (''server'', JStr ''https://wiki.example''),
                              (''articlepath'', JStr ''/wiki/$1'')]),
          (''namespaces'', JObj (zip [''0'', ''-1'', ''2''] example_namespaces))])])"

definition example_server :: "reply list" where
  "example_server = [site_reply, last_page, last_page, media_page, aliases_reply [export_entry]]"

section \<open>Facts about the Python operations\<close>

lemma and_then_Returns:
  "and_then m f = Returns y \<longleftrightarrow> (\<exists>x. m = Returns x \<and> f x = Returns y)"
  by (cases m) simp_all

lemma each_outcome_Returns:
  "each_outcome f xs = Returns ys \<Longrightarrow> y \<in> set ys \<Longrightarrow> \<exists>x\<in>set xs. f x = Returns y"
  by (induction xs arbitrary: ys) (auto simp: and_then_Returns)

lemma key_eq_refl [simp]: "key_eq x x"
  by (simp add: key_eq_def split: option.splits)

lemma key_eq_sym: "key_eq x y = key_eq y x"
  by (auto simp: key_eq_def split: option.splits)

lemma key_eq_trans: "key_eq x y \<Longrightarrow> key_eq y z \<Longrightarrow> key_eq x z"
  by (auto simp: key_eq_def split: option.splits)

lemma key_eq_JStr [simp]: "key_eq (JStr a) (JStr b) = (a = b)"
  by (simp add: key_eq_def)

lemma dict_get_dict_set:
  "dict_get (dict_set k v d) q = (if key_eq k q then Some v else dict_get d q)"
proof (induction d)
  case Nil
  show ?case by simp
next
  case (Cons kv d)
  obtain k' v' where kv: "kv = (k', v')" by (cases kv)
  show ?case
    using Cons.IH key_eq_trans [of k' k q] key_eq_trans [of k k' q]
      key_eq_trans [of k' q k] key_eq_sym [of k' k] key_eq_sym [of q k]
    by (auto simp: kv)
qed

lemma dict_merge_keeps:
  "dict_get d q \<noteq> None \<Longrightarrow> dict_get (dict_merge d kvs) q \<noteq> None"
  by (induction d kvs rule: dict_merge.induct) (simp_all add: dict_get_dict_set)

lemma dict_merge_untouched:
  "\<forall>kv\<in>set kvs. \<not> key_eq (fst kv) q \<Longrightarrow> dict_get (dict_merge d kvs) q = dict_get d q"
  by (induction d kvs rule: dict_merge.induct) (simp_all add: dict_get_dict_set)

lemma dict_update_keeps:
  assumes "dict_update d c = Returns d'" and "dict_get d q \<noteq> None"
  shows "dict_get d' q \<noteq> None"
proof -
  from assms(1) obtain kvs where "d' = dict_merge d kvs"
    by (cases c) (auto simp: and_then_Returns)
  with dict_merge_keeps [OF assms(2)] show ?thesis by simp
qed

section \<open>The loop of a walk\<close>

text \<open>One round of the loop, by what the server replies.\<close>

lemma walk_Nil:
  "walk entries progress api_url params found (World [] tr d) =
     (Starved, World [] (tr @ [Get api_url params]) d)"
  by simp

lemma walk_Broken:
  "walk entries progress api_url params found (World (Broken # rs) tr d) =
     (Raises ConnectionError, World rs (tr @ [Get api_url params]) d)"
  by simp

lemma walk_not_json:
  "json_body resp = None \<Longrightarrow>
   walk entries progress api_url params found (World (Reply resp # rs) tr d) =
     (Raises JSONDecodeError, World rs (tr @ [Get api_url params]) d)"
  by (simp add: response_json_def)

lemma walk_Reply:
  "json_body resp = Some data \<Longrightarrow>
   walk entries progress api_url params found (World (Reply resp # rs) tr d) =
     (case entries data of
        Returns new \<Rightarrow>
          (case next_params params data of
             Returns (Some params') \<Rightarrow>
               walk entries progress api_url params' (found @ new)
                 (World rs (tr @ [Get api_url params, Print (progress (length (found @ new))), Sleep d]) d)
           | Returns None \<Rightarrow>
               (Returns (found @ new),
                World rs (tr @ [Get api_url params, Print (progress (length (found @ new))), Sleep d]) d)
           | Raises e \<Rightarrow>
               (Raises e,
                World rs (tr @ [Get api_url params, Print (progress (length (found @ new))), Sleep d]) d)
           | Starved \<Rightarrow>
               (Starved,
                World rs (tr @ [Get api_url params, Print (progress (length (found @ new))), Sleep d]) d))
      | Raises e \<Rightarrow> (Raises e, World rs (tr @ [Get api_url params]) d)
      | Starved \<Rightarrow> (Starved, World rs (tr @ [Get api_url params]) d))"
  by (simp add: response_json_def split: outcome.splits option.splits)

declare walk.simps [simp del]

text \<open>
  Where a walk ends. If \<open>Inv\<close> holds of the parameters, the items found and the trace
  when the loop is entered, and a round that goes on to another round keeps it, then the
  walk ends in a round that started with \<open>Inv\<close>: either that round sent its request
  and returned nothing, or it read the entries \<open>new\<close> of a reply, printed and paused.
\<close>

lemma walk_end:
  assumes step: "\<And>params found tr data new params'.
       Inv params found tr \<Longrightarrow> ok data \<Longrightarrow> entries data = Returns new \<Longrightarrow>
       next_params params data = Returns (Some params') \<Longrightarrow>
       Inv params' (found @ new)
         (tr @ [Get api_url params, Print (progress (length (found @ new))), Sleep d])"
    and "Inv params found tr"
    and "scripted ok rs"
    and "walk entries progress api_url params found (World rs tr d) = (out, w')"
  shows "\<exists>ps f t rs'. Inv ps f t \<and>
           ((w' = World rs' (t @ [Get api_url ps]) d \<and> (\<forall>x. out \<noteq> Returns x))
            \<or> (\<exists>data new. ok data \<and> entries data = Returns new
                  \<and> w' = World rs' (t @ [Get api_url ps, Print (progress (length (f @ new))), Sleep d]) d
                  \<and> (out = Returns (f @ new) \<or> (\<forall>x. out \<noteq> Returns x))))"
  using assms(2-)
proof (induction rs arbitrary: params found tr)
  case Nil
  then show ?case by (auto simp: walk_Nil)
next
  case (Cons r rs)
  show ?case
  proof (cases r)
    case Broken
    with Cons.prems show ?thesis by (auto simp: walk_Broken)
  next
    case (Reply resp)
    show ?thesis
    proof (cases "json_body resp")
      case None
      with Cons.prems Reply show ?thesis by (auto simp: walk_not_json)
    next
      case (Some data)
      note run = Cons.prems(3) [unfolded Reply walk_Reply [OF Some]]
      from Cons.prems(2) Reply Some have ok: "ok data" and rest: "scripted ok rs"
        by (simp_all add: scripted_def)
      show ?thesis
      proof (cases "entries data")
        case (Returns new)
        note new = this
        let ?t = "tr @ [Get api_url params, Print (progress (length (found @ new))), Sleep d]"
        show ?thesis
        proof (cases "next_params params data")
          case (Returns np)
          show ?thesis
          proof (cases np)
            case None
            with run new Returns have "out = Returns (found @ new)" "w' = World rs ?t d"
              by simp_all
            with Cons.prems(1) ok new show ?thesis by blast
          next
            case (Some params')
            with run new Returns
            have "walk entries progress api_url params' (found @ new) (World rs ?t d) = (out, w')"
              by simp
            moreover have "Inv params' (found @ new) ?t"
              using step [OF Cons.prems(1) ok new] Returns Some by simp
            ultimately show ?thesis
              using Cons.IH rest by blast
          qed
        next
          case (Raises e)
          with run new have "out = Raises e" "w' = World rs ?t d"
            by simp_all
          with Cons.prems(1) ok new show ?thesis by blast
        next
          case Starved
          with run new have "out = Starved" "w' = World rs ?t d"
            by simp_all
          with Cons.prems(1) ok new show ?thesis by blast
        qed
      next
        case (Raises e)
        with run have "out = Raises e" "w' = World rs (tr @ [Get api_url params]) d"
          by simp_all
        with Cons.prems(1) show ?thesis by blast
      next
        case Starved
        with run have "out = Starved" "w' = World rs (tr @ [Get api_url params]) d"
          by simp_all
        with Cons.prems(1) show ?thesis by blast
      qed
    qed
  qed
qed

lemma scripted_True [simp]: "scripted (\<lambda>data. True) rs"
  by (induction rs) (auto simp: scripted_def split: reply.splits option.splits)

lemma walk_returns:
  assumes step: "\<And>params found tr data new params'.
       Inv params found tr \<Longrightarrow> ok data \<Longrightarrow> entries data = Returns new \<Longrightarrow>
       next_params params data = Returns (Some params') \<Longrightarrow>
       Inv params' (found @ new)
         (tr @ [Get api_url params, Print (progress (length (found @ new))), Sleep d])"
    and start: "Inv params found tr"
    and rs: "scripted ok rs"
    and run: "walk entries progress api_url params found (World rs tr d) = (Returns items, w')"
  obtains ps f t data new where "Inv ps f t" and "ok data" and "entries data = Returns new"
    and "items = f @ new"
proof -
  have "\<exists>ps f t rs'. Inv ps f t \<and>
           ((w' = World rs' (t @ [Get api_url ps]) d \<and> (\<forall>x. Returns items \<noteq> Returns x))
            \<or> (\<exists>data new. ok data \<and> entries data = Returns new
                  \<and> w' = World rs' (t @ [Get api_url ps, Print (progress (length (f @ new))), Sleep d]) d
                  \<and> (Returns items = Returns (f @ new) \<or> (\<forall>x. Returns items \<noteq> Returns x))))"
    by (rule walk_end [where Inv = Inv and ok = ok, OF _ start rs run]) (erule (3) step)
  then obtain ps f t rs' where inv: "Inv ps f t"
    and fin: "(w' = World rs' (t @ [Get api_url ps]) d \<and> (\<forall>x. Returns items \<noteq> Returns x))
            \<or> (\<exists>data new. ok data \<and> entries data = Returns new
                  \<and> w' = World rs' (t @ [Get api_url ps, Print (progress (length (f @ new))), Sleep d]) d
                  \<and> (Returns items = Returns (f @ new) \<or> (\<forall>x. Returns items \<noteq> Returns x)))"
    by (elim exE conjE) assumption
  from fin obtain data new where "ok data" and "entries data = Returns new" and "items = f @ new"
    by blast
  with inv that show thesis
    by blast
qed

text \<open>What every item of a walk satisfies, if the items of every reply do.\<close>

lemma walk_items:
  assumes entries: "\<And>data new x. entries data = Returns new \<Longrightarrow> x \<in> set new \<Longrightarrow> P x"
    and found: "\<forall>x\<in>set found. P x"
    and items: "fst (walk entries progress api_url params found w) = Returns items"
  shows "\<forall>x\<in>set items. P x"
proof -
  obtain rs tr d where w: "w = World rs tr d"
    by (cases w)
  define Inv where "Inv = (\<lambda>(ps::params) f (t::event list). \<forall>x\<in>set f. P x)"
  obtain out w' where run: "walk entries progress api_url params found (World rs tr d) = (out, w')"
    by (cases "walk entries progress api_url params found (World rs tr d)")
  from items have "out = Returns items"
    by (simp add: w run)
  with run have run': "walk entries progress api_url params found (World rs tr d) = (Returns items, w')"
    by simp
  have start: "Inv params found tr"
    using found by (simp add: Inv_def)
  have step: "Inv params' (found @ new)
         (tr @ [Get api_url params, Print (progress (length (found @ new))), Sleep d])"
    if "Inv params found tr" and "entries data = Returns new"
    for params found tr data new params'
  proof -
    from that(1) have "\<forall>x\<in>set found. P x"
      by (simp add: Inv_def)
    moreover have "\<forall>x\<in>set new. P x"
      using entries [OF that(2)] by blast
    ultimately show ?thesis
      by (simp add: Inv_def ball_Un)
  qed
  have "\<exists>f data new. (\<forall>x\<in>set f. P x) \<and> entries data = Returns new \<and> items = f @ new"
  proof (rule walk_returns [where Inv = Inv and ok = "\<lambda>data. True", OF _ start scripted_True run'])
    fix params found tr data new and params' :: params
    assume "Inv params found tr" and "entries data = Returns new"
    then show "Inv params' (found @ new)
         (tr @ [Get api_url params, Print (progress (length (found @ new))), Sleep d])"
      by (rule step)
  next
    fix ps f t data new
    assume "Inv ps f t" and "entries data = Returns new" and "items = f @ new"
    then show "\<exists>f data new. (\<forall>x\<in>set f. P x) \<and> entries data = Returns new \<and> items = f @ new"
      unfolding Inv_def by blast
  qed
  then obtain f data new where "\<forall>x\<in>set f. P x" and "entries data = Returns new"
    and "items = f @ new"
    by blast
  then show ?thesis
    using entries by auto
qed

lemma next_params_keeps:
  assumes "next_params ps data = Returns (Some ps')" and "dict_get ps q \<noteq> None"
  shows "dict_get ps' q \<noteq> None"
proof -
  from assms(1) obtain c where "dict_update ps c = Returns ps'"
    by (auto simp: next_params_def and_then_Returns split: option.splits)
  then show ?thesis
    using assms(2) by (rule dict_update_keeps)
qed

lemma next_params_untouched:
  assumes "next_params ps data = Returns (Some ps')" and "untouched k data"
  shows "dict_get ps' (JStr k) = dict_get ps (JStr k)"
proof -
  from assms(1) obtain c where c: "continuation data = Returns (Some c)"
    and upd: "dict_update ps c = Returns ps'"
    by (auto simp: next_params_def and_then_Returns split: option.splits)
  from assms(2) c obtain kvs where kvs: "c = JObj kvs" and k: "k \<notin> fst ` set kvs"
    by (cases c) (auto simp: untouched_def)
  from upd kvs have "ps' = dict_merge ps (map (\<lambda>(k, v). (JStr k, v)) kvs)"
    by simp
  moreover have "\<forall>kv\<in>set (map (\<lambda>(k, v). (JStr k, v)) kvs). \<not> key_eq (fst kv) (JStr k)"
    using k by (auto simp: image_iff)
  ultimately show ?thesis
    by (simp add: dict_merge_untouched)
qed

lemma requests_append [simp]: "requests (xs @ ys) = requests xs @ requests ys"
  by (induction xs rule: requests.induct) simp_all

text \<open>Every request of a walk satisfies what the first parameters satisfy and a merge keeps.\<close>

lemma walk_requests:
  assumes keep: "\<And>ps data ps'. Q ps \<Longrightarrow> ok data \<Longrightarrow>
                   next_params ps data = Returns (Some ps') \<Longrightarrow> Q ps'"
    and "Q params" and "scripted ok rs"
  shows "\<forall>ps\<in>set (requests (added (World rs tr d)
             (snd (walk entries progress api_url params found (World rs tr d))))). Q ps"
proof -
  define Inv where "Inv = (\<lambda>(ps::params) (f::string list) t.
      Q ps \<and> (\<exists>new. t = tr @ new \<and> (\<forall>p\<in>set (requests new). Q p)))"
  obtain out w' where run: "walk entries progress api_url params found (World rs tr d) = (out, w')"
    by (cases "walk entries progress api_url params found (World rs tr d)")
  have "Inv params found tr"
    using assms(2) by (simp add: Inv_def)
  moreover have "\<And>params found tr data new params'.
       Inv params found tr \<Longrightarrow> ok data \<Longrightarrow> entries data = Returns new \<Longrightarrow>
       next_params params data = Returns (Some params') \<Longrightarrow>
       Inv params' (found @ new)
         (tr @ [Get api_url params, Print (progress (length (found @ new))), Sleep d])"
    using keep by (auto simp: Inv_def)
  ultimately obtain ps f t where "Inv ps f t"
    and "trace w' = t @ [Get api_url ps] \<or>
         (\<exists>n. trace w' = t @ [Get api_url ps, Print (progress n), Sleep d])"
    using walk_end [where Inv = Inv and ok = ok, OF _ _ assms(3) run] by fastforce
  then show ?thesis
    by (auto simp: Inv_def run added_def)
qed

text \<open>The first thing a walk does is to send a request with the parameters it was given.\<close>

lemma walk_first_request:
  "\<exists>more. added (World rs tr d) (snd (walk entries progress api_url params found (World rs tr d)))
           = Get api_url params # more"
proof -
  define Inv where "Inv = (\<lambda>(ps::params) (f::string list) t.
      (t = tr \<and> ps = params) \<or> (\<exists>more. t = tr @ Get api_url params # more))"
  obtain out w' where run: "walk entries progress api_url params found (World rs tr d) = (out, w')"
    by (cases "walk entries progress api_url params found (World rs tr d)")
  have "Inv params found tr"
    by (simp add: Inv_def)
  moreover have "\<And>params found tr data new params'.
       Inv params found tr \<Longrightarrow> True \<Longrightarrow> entries data = Returns new \<Longrightarrow>
       next_params params data = Returns (Some params') \<Longrightarrow>
       Inv params' (found @ new)
         (tr @ [Get api_url params, Print (progress (length (found @ new))), Sleep d])"
    by (auto simp: Inv_def)
  ultimately obtain ps f t where "Inv ps f t"
    and "trace w' = t @ [Get api_url ps] \<or>
         (\<exists>n. trace w' = t @ [Get api_url ps, Print (progress n), Sleep d])"
    using walk_end [where Inv = Inv and ok = "\<lambda>data. True", OF _ _ scripted_True run] by fastforce
  then show ?thesis
    by (auto simp: Inv_def run added_def)
qed

lemma walk_limit_and_continue:
  assumes "dict_get params (JStr limit) = Some (JStr ''50'')"
    and "dict_get params (JStr ''continue'') = Some (JStr [])"
  shows "limit_and_continue limit params rs
           (requests (added (World rs tr d)
              (snd (walk entries progress api_url params found (World rs tr d)))))"
proof -
  let ?reqs = "requests (added (World rs tr d)
                 (snd (walk entries progress api_url params found (World rs tr d))))"
  from walk_first_request [of rs tr d entries progress api_url params found]
  have first: "?reqs \<noteq> [] \<and> hd ?reqs = params"
    by auto
  have present: "\<forall>ps\<in>set ?reqs. dict_get ps (JStr limit) \<noteq> None \<and> dict_get ps (JStr ''continue'') \<noteq> None"
    by (rule walk_requests [where ok = "\<lambda>data. True"])
       (use assms in \<open>auto dest: next_params_keeps\<close>)
  have value_kept: "\<forall>ps\<in>set ?reqs. dict_get ps (JStr k) = Some v"
    if "scripted (untouched k) rs" and "dict_get params (JStr k) = Some v" for k v
    by (rule walk_requests [where ok = "untouched k"])
       (use that in \<open>auto dest: next_params_untouched\<close>)
  show ?thesis
    unfolding limit_and_continue_def
    using first present value_kept [OF _ assms(1)] value_kept [OF _ assms(2)] by blast
qed

lemma page_entries_items:
  assumes "page_entries lib data = Returns new" and "x \<in> set new"
  shows "prefix ''mediawiki-article:'' x"
proof (cases "py_in ''query'' data = Returns True")
  case True
  with assms(1) obtain kvs :: "(string \<times> json) list" where
    "each_outcome (\<lambda>(page_id, page_info). article_item lib page_info) kvs = Returns new"
    by (auto simp: page_entries_def and_then_Returns)
  from each_outcome_Returns [OF this assms(2)] show ?thesis
    by (auto simp: article_item_def and_then_Returns)
next
  case False
  with assms show ?thesis
    by (auto simp: page_entries_def and_then_Returns split: if_splits)
qed

lemma image_entries_items:
  assumes "image_entries lib data = Returns new" and "x \<in> set new"
  shows "prefix ''mediawiki-media:'' x"
proof (cases "py_in ''query'' data = Returns True")
  case True
  with assms(1) obtain images where
    "each_outcome (media_item lib) images = Returns new"
    by (auto simp: image_entries_def and_then_Returns)
  from each_outcome_Returns [OF this assms(2)] show ?thesis
    by (auto simp: media_item_def and_then_Returns)
next
  case False
  with assms show ?thesis
    by (auto simp: image_entries_def and_then_Returns split: if_splits)
qed

lemma special_items_form:
  assumes "special_items lib template_url data = Returns items" and "x \<in> set items"
  shows "prefix ''mediawiki-special:'' x"
  using assms by (auto simp: special_items_def and_then_Returns special_item_def)

lemma get_special_pages_items:
  assumes "fst (get_special_pages lib api_url template_url w) = Returns items"
  shows "\<exists>data. special_items lib template_url data = Returns items"
proof -
  obtain rs tr d where w: "w = World rs tr d"
    by (cases w)
  show ?thesis
  proof (cases rs)
    case Nil
    with assms w show ?thesis
      by (simp add: get_special_pages_def rate_limited_def)
  next
    case (Cons r rs')
    with assms w show ?thesis
      by (cases r)
         (auto simp: get_special_pages_def rate_limited_def response_json_def
               split: outcome.splits option.splits)
  qed
qed

lemma visited_append [simp]: "visited (xs @ ys) = visited xs @ visited ys"
  by (induction xs rule: visited.induct) simp_all

lemma visited_other:
  assumes "\<And>i c. m \<noteq> GettingPages i c"
  shows "visited (Print m # es) = visited es"
proof (cases m)
  case (GettingPages i c)
  with assms show ?thesis by blast
qed simp_all

lemma trace_emit [simp]: "trace (emit e w) = trace w @ [e]"
  by (cases w) simp

lemma trace_save_items [simp]: "trace (save_items items w) = trace w @ [Save items]"
  by (simp add: save_items_def)

text \<open>A walk announces no namespace.\<close>

lemma walk_adds:
  assumes progress: "\<And>n i c. progress n \<noteq> GettingPages i c"
  shows "\<exists>new. trace (snd (walk entries progress api_url params found (World rs tr d))) = tr @ new
               \<and> visited new = []"
proof -
  define Inv where "Inv = (\<lambda>(ps::params) (f::string list) t. \<exists>new. t = tr @ new \<and> visited new = [])"
  obtain out w' where run: "walk entries progress api_url params found (World rs tr d) = (out, w')"
    by (cases "walk entries progress api_url params found (World rs tr d)")
  have quiet: "visited (Print (progress n) # es) = visited es" for n es
    using progress by (rule visited_other)
  have "\<exists>ps f t rs'. Inv ps f t \<and>
           ((w' = World rs' (t @ [Get api_url ps]) d \<and> (\<forall>x. out \<noteq> Returns x))
            \<or> (\<exists>data new. True \<and> entries data = Returns new
                  \<and> w' = World rs' (t @ [Get api_url ps, Print (progress (length (f @ new))), Sleep d]) d
                  \<and> (out = Returns (f @ new) \<or> (\<forall>x. out \<noteq> Returns x))))"
  proof (rule walk_end [where Inv = Inv and ok = "\<lambda>data. True", OF _ _ scripted_True run])
    show "Inv params found tr"
      by (simp add: Inv_def)
  next
    fix ps f t and new :: "string list" and ps' :: params
    assume "Inv ps f t"
    then obtain old where "t = tr @ old" and "visited old = []"
      by (auto simp: Inv_def)
    then show "Inv ps' (f @ new) (t @ [Get api_url ps, Print (progress (length (f @ new))), Sleep d])"
      by (simp add: Inv_def quiet)
  qed
  then obtain t where "\<exists>old. t = tr @ old \<and> visited old = []"
    and "trace w' = t @ [Get api_url params] \<or> (\<exists>ps. trace w' = t @ [Get api_url ps])
         \<or> (\<exists>ps n. trace w' = t @ [Get api_url ps, Print (progress n), Sleep d])"
    unfolding Inv_def by fastforce
  then show ?thesis
    by (auto simp: run quiet)
qed

lemma get_all_pages_adds:
  "\<exists>new. trace (snd (get_all_pages lib api_url i w)) = trace w @ new \<and> visited new = []"
proof (cases w)
  case (World rs tr d)
  show ?thesis
    unfolding World get_all_pages_def world.sel
    by (rule walk_adds) simp
qed

lemma asleep_append [simp]: "asleep b (xs @ ys) = asleep (asleep b xs) ys"
  by (induction b xs rule: asleep.induct) simp_all

lemma walk_starts_append:
  "walk_starts b (xs @ ys) = walk_starts b xs @ walk_starts (asleep b xs) ys"
  by (induction b xs rule: walk_starts.induct) simp_all

lemma saves_append [simp]: "saves (xs @ ys) = saves xs @ saves ys"
  by (induction xs rule: saves.induct) simp_all

text \<open>The events of a walk that returns: one start, a pause at the end, nothing saved.\<close>

lemma walk_shape:
  assumes run: "walk entries progress api_url params found (World rs tr d) = (Returns items, w')"
  shows "\<exists>new. trace w' = tr @ new \<and> walk_starts False new = [params] \<and> asleep False new
               \<and> saves new = []"
proof -
  define Inv where "Inv = (\<lambda>(ps::params) (f::string list) t.
      (t = tr \<and> ps = params) \<or>
      (\<exists>mid. t = tr @ mid \<and> walk_starts False mid = [params] \<and> asleep False mid \<and> saves mid = []))"
  have "\<exists>ps f t rs'. Inv ps f t \<and>
           ((w' = World rs' (t @ [Get api_url ps]) d \<and> (\<forall>x. Returns items \<noteq> Returns x))
            \<or> (\<exists>data new. True \<and> entries data = Returns new
                  \<and> w' = World rs' (t @ [Get api_url ps, Print (progress (length (f @ new))), Sleep d]) d
                  \<and> (Returns items = Returns (f @ new) \<or> (\<forall>x. Returns items \<noteq> Returns x))))"
  proof (rule walk_end [where Inv = Inv and ok = "\<lambda>data. True", OF _ _ scripted_True run])
    show "Inv params found tr"
      by (simp add: Inv_def)
  next
    fix ps f t and new :: "string list" and ps' :: params
    assume "Inv ps f t"
    then show "Inv ps' (f @ new) (t @ [Get api_url ps, Print (progress (length (f @ new))), Sleep d])"
      by (auto simp: Inv_def walk_starts_append)
  qed
  then obtain ps f t n where inv: "Inv ps f t"
    and w': "trace w' = t @ [Get api_url ps, Print (progress n), Sleep d]"
    by fastforce
  from inv consider (first) "t = tr" and "ps = params"
    | (later) mid where "t = tr @ mid" and "walk_starts False mid = [params]"
        and "asleep False mid" and "saves mid = []"
    unfolding Inv_def by blast
  then show ?thesis
  proof cases
    case first
    show ?thesis
      by (rule exI [of _ "[Get api_url params, Print (progress n), Sleep d]"])
         (simp add: w' first)
  next
    case later
    show ?thesis
      by (rule exI [of _ "mid @ [Get api_url ps, Print (progress n), Sleep d]"])
         (simp add: w' later walk_starts_append)
  qed
qed

lemma get_all_pages_shape:
  assumes "get_all_pages lib api_url i w = (Returns pages, w')"
  shows "\<exists>new. trace w' = trace w @ new \<and> walk_starts False new = [pages_params i]
               \<and> asleep False new \<and> saves new = [] \<and> visited new = []"
proof -
  obtain rs tr d where w: "w = World rs tr d"
    by (cases w)
  from assms have run: "walk (page_entries lib) GotArticles api_url (pages_params i) [] (World rs tr d)
                        = (Returns pages, w')"
    by (simp add: get_all_pages_def w)
  from walk_shape [OF run] obtain new where new: "trace w' = tr @ new"
    and shape: "walk_starts False new = [pages_params i]" "asleep False new" "saves new = []"
    by blast
  from get_all_pages_adds [of lib api_url i w] assms new w have "visited new = []"
    by simp
  with new shape w show ?thesis
    by simp
qed

text \<open>The trace of a walk goes on from the trace it started with, with its first request.\<close>

lemma walk_trace_first:
  "\<exists>more. trace (snd (walk entries progress api_url params found (World rs tr d)))
           = tr @ Get api_url params # more"
proof -
  define Inv where "Inv = (\<lambda>(ps::params) (f::string list) t.
      (t = tr \<and> ps = params) \<or> (\<exists>more. t = tr @ Get api_url params # more))"
  obtain out w' where run: "walk entries progress api_url params found (World rs tr d) = (out, w')"
    by (cases "walk entries progress api_url params found (World rs tr d)")
  have "Inv params found tr"
    by (simp add: Inv_def)
  moreover have "\<And>params found tr data new params'.
       Inv params found tr \<Longrightarrow> True \<Longrightarrow> entries data = Returns new \<Longrightarrow>
       next_params params data = Returns (Some params') \<Longrightarrow>
       Inv params' (found @ new)
         (tr @ [Get api_url params, Print (progress (length (found @ new))), Sleep d])"
    by (auto simp: Inv_def)
  ultimately obtain ps f t where "Inv ps f t"
    and "trace w' = t @ [Get api_url ps] \<or>
         (\<exists>n. trace w' = t @ [Get api_url ps, Print (progress n), Sleep d])"
    using walk_end [where Inv = Inv and ok = "\<lambda>data. True", OF _ _ scripted_True run] by fastforce
  then show ?thesis
    by (auto simp: Inv_def run)
qed

text \<open>The request after a merge carries what the continuation object names.\<close>

lemma dict_merge_named:
  "distinct (map fst kvs) \<Longrightarrow> map_of kvs k = Some v \<Longrightarrow>
   dict_get (dict_merge d (map (\<lambda>(k, v). (JStr k, v)) kvs)) (JStr k) = Some v"
proof (induction kvs arbitrary: d)
  case Nil
  then show ?case by simp
next
  case (Cons kv kvs)
  obtain k1 v1 where kv: "kv = (k1, v1)"
    by (cases kv)
  show ?case
  proof (cases "k1 = k")
    case True
    with Cons.prems kv have v1: "v1 = v" and fresh: "k \<notin> fst ` set kvs"
      by auto
    from fresh have "\<forall>e\<in>set (map (\<lambda>(k, v). (JStr k, v)) kvs). \<not> key_eq (fst e) (JStr k)"
      by (auto simp: image_iff)
    then show ?thesis
      by (simp add: kv True v1 dict_merge_untouched dict_get_dict_set)
  next
    case False
    with Cons.prems kv have "distinct (map fst kvs)" and "map_of kvs k = Some v"
      by auto
    from Cons.IH [OF this] show ?thesis
      by (simp add: kv)
  qed
qed

lemma next_params_named:
  assumes "continuation data = Returns (Some (JObj kvs))"
  shows "next_params params data =
           Returns (Some (dict_merge params (map (\<lambda>(k, v). (JStr k, v)) kvs)))"
  using assms by (simp add: next_params_def)

lemma walk_after_merge:
  assumes body: "json_body resp = Some data" and new: "entries data = Returns new"
    and c: "continuation data = Returns (Some (JObj kvs))"
    and kvs: "distinct (map fst kvs)" "map_of kvs k = Some v"
  shows "\<exists>ps more. requests (added (World (Reply resp # rs) tr d)
                (snd (walk entries progress api_url params found (World (Reply resp # rs) tr d))))
              = params # ps # more
            \<and> dict_get ps (JStr k) = Some v"
proof -
  let ?ps = "dict_merge params (map (\<lambda>(k, v). (JStr k, v)) kvs)"
  let ?tr = "tr @ [Get api_url params, Print (progress (length (found @ new))), Sleep d]"
  have step: "walk entries progress api_url params found (World (Reply resp # rs) tr d) =
        walk entries progress api_url ?ps (found @ new) (World rs ?tr d)"
    by (simp add: walk_Reply [OF body] new next_params_named [OF c])
  from walk_trace_first [of entries progress api_url ?ps "found @ new" rs ?tr d]
  obtain more where "trace (snd (walk entries progress api_url ?ps (found @ new) (World rs ?tr d)))
      = ?tr @ Get api_url ?ps # more"
    by blast
  then have "requests (added (World (Reply resp # rs) tr d)
                (snd (walk entries progress api_url params found (World (Reply resp # rs) tr d))))
              = params # ?ps # requests more"
    by (simp add: step added_def)
  moreover have "dict_get ?ps (JStr k) = Some v"
    using kvs by (rule dict_merge_named)
  ultimately show ?thesis
    by blast
qed

section \<open>Running the examples\<close>

text \<open>
  The definitions to unfold when an example is evaluated: the replies, then the
  functions of the walks, of the special pages and of the orchestrator.
\<close>

lemmas example_replies =
  api_def json_reply_def pages_A_def last_page_def modern_page_def legacy_page_def
  hollow_page_def empty_page_def no_query_page_def media_page_def export_entry_def aliases_reply_def

lemmas run_walk =
  get_all_pages_def pages_params_def page_entries_def article_item_def
  get_all_images_def images_params_def image_entries_def media_item_def
  response_json_def next_params_def continuation_def
  walk_Nil walk_Broken walk_Reply walk_not_json

lemmas run_special =
  get_special_pages_def rate_limited_def response_json_def special_items_def add_entry_def
  set_add_def key_eq_def special_item_def

lemmas run_main =
  script_def main_def discover_def media_and_special_def get_site_info_def save_items_def
  get_api_url_def py_negative_def example_lib_def example_urljoin_def example_urlparse_def
  site_reply_def example_namespaces_def example_server_def

section \<open>Endpoint resolution\<close>

text \<open>
  C8. When the given URL contains \<^verbatim>\<open>api.php\<close>, \<^verbatim>\<open>get_api_url\<close> returns that very
  string, and the world is the one it started in: no request was sent, no reply was
  taken, nothing was printed and there was no pause.
\<close>

theorem get_api_url_fast_path:
  "substring ''api.php'' wiki_url \<Longrightarrow> get_api_url lib wiki_url w = (Returns (Some wiki_url), w)"
  by (simp add: get_api_url_def)

theorem get_api_url_fast_path_witness:
  "substring ''api.php'' ''https://wiki.example/w/api.php''
   \<and> get_api_url example_lib ''https://wiki.example/w/api.php'' (World [] [] 0)
       = (Returns (Some ''https://wiki.example/w/api.php''), World [] [] 0)"
proof -
  have h: "substring ''api.php'' ''https://wiki.example/w/api.php''"
    by simp
  show ?thesis
    using h get_api_url_fast_path [OF h, of example_lib "World [] [] 0"] by simp
qed

text \<open>
  C9, as the script has it. The URL given does not contain \<^verbatim>\<open>api.php\<close>, so the page
  is fetched. If the page has no \<^verbatim>\<open>EditURI\<close> link, and its first stylesheet link has an
  \<^verbatim>\<open>href\<close> that \<^verbatim>\<open>urlparse\<close> splits into a scheme and a network location, the endpoint
  is that scheme, \<^verbatim>\<open>://\<close>, that location and \<^verbatim>\<open>/api.php\<close>. If that stylesheet link
  has no \<^verbatim>\<open>href\<close>, no endpoint is found (\<^verbatim>\<open>None\<close>). Either way the trace shows the
  one request, then the pause, then the message of the fallback.
\<close>

theorem stylesheet_fallback:
  assumes "\<not> substring ''api.php'' wiki_url"
    and "soup_find ''EditURI'' page = None"
    and "soup_find ''stylesheet'' page = Some css_link"
  shows "(href css_link = Some css_url \<and> urlparse lib css_url = Returns (scheme, netloc) \<longrightarrow>
           get_api_url lib wiki_url (World (Reply page # rs) tr d) =
             (Returns (Some (scheme @ ''://'' @ netloc @ ''/api.php'')),
              World rs (tr @ [Print TryingEditURI, Get wiki_url [], Sleep d, Print TryingLoadPhp]) d))
       \<and> (href css_link = None \<longrightarrow>
           get_api_url lib wiki_url (World (Reply page # rs) tr d) =
             (Returns None,
              World rs (tr @ [Print TryingEditURI, Get wiki_url [], Sleep d, Print TryingLoadPhp]) d))"
  using assms by (simp add: get_api_url_def css_fallback_def)

theorem stylesheet_fallback_witness:
  "\<not> substring ''api.php'' ''https://wiki.example/wiki/Main_Page''
   \<and> soup_find ''EditURI'' css_page = None
   \<and> soup_find ''stylesheet'' css_page
       = Some \<lparr>rel = [''stylesheet''], href = Some ''https://wiki.example/skins/common/load.css''\<rparr>
   \<and> urlparse example_lib ''https://wiki.example/skins/common/load.css''
       = Returns (''https'', ''wiki.example'')
   \<and> get_api_url example_lib ''https://wiki.example/wiki/Main_Page'' (World [Reply css_page] [] 0) =
       (Returns (Some ''https://wiki.example/api.php''),
        World [] [Print TryingEditURI, Get ''https://wiki.example/wiki/Main_Page'' [], Sleep 0,
                  Print TryingLoadPhp] 0)
   \<and> soup_find ''EditURI'' bare_css_page = None
   \<and> soup_find ''stylesheet'' bare_css_page = Some \<lparr>rel = [''stylesheet''], href = None\<rparr>
   \<and> get_api_url example_lib ''https://wiki.example/wiki/Main_Page'' (World [Reply bare_css_page] [] 0) =
       (Returns None,
        World [] [Print TryingEditURI, Get ''https://wiki.example/wiki/Main_Page'' [], Sleep 0,
                  Print TryingLoadPhp] 0)"
proof -
  have a: "\<not> substring ''api.php'' ''https://wiki.example/wiki/Main_Page''"
    by simp
  have b: "soup_find ''EditURI'' css_page = None"
    by (simp add: soup_find_def css_page_def)
  have c: "soup_find ''stylesheet'' css_page
       = Some \<lparr>rel = [''stylesheet''], href = Some ''https://wiki.example/skins/common/load.css''\<rparr>"
    by (simp add: soup_find_def css_page_def)
  have e: "urlparse example_lib ''https://wiki.example/skins/common/load.css''
       = Returns (''https'', ''wiki.example'')"
    by (simp add: example_lib_def example_urlparse_def)
  have b': "soup_find ''EditURI'' bare_css_page = None"
    by (simp add: soup_find_def bare_css_page_def)
  have c': "soup_find ''stylesheet'' bare_css_page = Some \<lparr>rel = [''stylesheet''], href = None\<rparr>"
    by (simp add: soup_find_def bare_css_page_def)
  from stylesheet_fallback [OF a b c, of "''https://wiki.example/skins/common/load.css''" example_lib
      "''https''" "''wiki.example''" "[]" "[]" 0] e
  have 1: "get_api_url example_lib ''https://wiki.example/wiki/Main_Page'' (World [Reply css_page] [] 0) =
       (Returns (Some ''https://wiki.example/api.php''),
        World [] [Print TryingEditURI, Get ''https://wiki.example/wiki/Main_Page'' [], Sleep 0,
                  Print TryingLoadPhp] 0)"
    by simp
  from stylesheet_fallback [OF a b' c', of "[]" example_lib "[]" "[]" "[]" "[]" 0]
  have 2: "get_api_url example_lib ''https://wiki.example/wiki/Main_Page''
             (World [Reply bare_css_page] [] 0) =
       (Returns None,
        World [] [Print TryingEditURI, Get ''https://wiki.example/wiki/Main_Page'' [], Sleep 0,
                  Print TryingLoadPhp] 0)"
    by simp
  from a b c e b' c' 1 2 show ?thesis
    by simp
qed

text \<open>
  The claim as it is written fails for a page whose stylesheet link has no \<^verbatim>\<open>href\<close>:
  the guard \<^verbatim>\<open>'href' in css_link.attrs\<close> sends it to \<^verbatim>\<open>return None\<close>.
\<close>

theorem stylesheet_without_href:
  "soup_find ''EditURI'' bare_css_page = None
   \<and> soup_find ''stylesheet'' bare_css_page = Some \<lparr>rel = [''stylesheet''], href = None\<rparr>
   \<and> fst (get_api_url example_lib ''https://wiki.example/wiki/Main_Page''
            (World [Reply bare_css_page] [] 0)) = Returns None"
  by (simp add: get_api_url_def css_fallback_def soup_find_def bare_css_page_def)

section \<open>The items\<close>

text \<open>
  C1, as the script has it. The kinds are \<^verbatim>\<open>mediawiki-article\<close>, \<^verbatim>\<open>mediawiki-media\<close> and
  \<^verbatim>\<open>mediawiki-special\<close>, not \<^verbatim>\<open>article\<close>, \<^verbatim>\<open>media\<close> and \<^verbatim>\<open>special\<close>. A page entry
  whose \<^verbatim>\<open>fullurl\<close> is the string \<open>u\<close> gives \<^verbatim>\<open>mediawiki-article:\<close> followed by \<open>u\<close>;
  an image entry whose \<^verbatim>\<open>url\<close> is \<open>u\<close> gives \<^verbatim>\<open>mediawiki-media:\<close> followed by \<open>u\<close>;
  the name of a special page gives \<^verbatim>\<open>mediawiki-special:\<close> followed by the template
  with \<^verbatim>\<open>Special:\<close> and the name in place of every \<^verbatim>\<open>$1\<close>. Every item a walk over
  the articles returns starts with \<^verbatim>\<open>mediawiki-article:\<close>, every item the walk over the
  media returns starts with \<^verbatim>\<open>mediawiki-media:\<close>, and every item of the special pages
  starts with \<^verbatim>\<open>mediawiki-special:\<close>.
\<close>

theorem items_carry_mediawiki_kind:
  "(map_of entry ''fullurl'' = Some (JStr u) \<longrightarrow>
      article_item lib (JObj entry) = Returns (''mediawiki-article:'' @ u))
   \<and> (map_of entry ''url'' = Some (JStr u) \<longrightarrow>
      media_item lib (JObj entry) = Returns (''mediawiki-media:'' @ u))
   \<and> special_item lib template_url (JStr name) =
        ''mediawiki-special:'' @ replace ''$1'' (''Special:'' @ name) template_url
   \<and> (fst (get_all_pages lib api_url gapnamespace w) = Returns items \<longrightarrow>
        (\<forall>x\<in>set items. prefix ''mediawiki-article:'' x))
   \<and> (fst (get_all_images lib api_url w) = Returns items \<longrightarrow>
        (\<forall>x\<in>set items. prefix ''mediawiki-media:'' x))
   \<and> (fst (get_special_pages lib api_url template_url w) = Returns items \<longrightarrow>
        (\<forall>x\<in>set items. prefix ''mediawiki-special:'' x))"
proof (intro conjI impI)
  assume "fst (get_all_pages lib api_url gapnamespace w) = Returns items"
  then have run: "fst (walk (page_entries lib) GotArticles api_url (pages_params gapnamespace) [] w)
                  = Returns items"
    by (simp only: get_all_pages_def)
  show "\<forall>x\<in>set items. prefix ''mediawiki-article:'' x"
  proof (rule walk_items [where P = "prefix ''mediawiki-article:''", OF _ _ run])
    show "\<And>data new x. page_entries lib data = Returns new \<Longrightarrow> x \<in> set new \<Longrightarrow>
            prefix ''mediawiki-article:'' x"
      by (rule page_entries_items)
    show "\<forall>x\<in>set []. prefix ''mediawiki-article:'' x"
      by simp
  qed
next
  assume "fst (get_all_images lib api_url w) = Returns items"
  then have run: "fst (walk (image_entries lib) FoundMedia api_url images_params [] w)
                  = Returns items"
    by (simp only: get_all_images_def)
  show "\<forall>x\<in>set items. prefix ''mediawiki-media:'' x"
  proof (rule walk_items [where P = "prefix ''mediawiki-media:''", OF _ _ run])
    show "\<And>data new x. image_entries lib data = Returns new \<Longrightarrow> x \<in> set new \<Longrightarrow>
            prefix ''mediawiki-media:'' x"
      by (rule image_entries_items)
    show "\<forall>x\<in>set []. prefix ''mediawiki-media:'' x"
      by simp
  qed
next
  assume "fst (get_special_pages lib api_url template_url w) = Returns items"
  then obtain data where "special_items lib template_url data = Returns items"
    using get_special_pages_items by blast
  then show "\<forall>x\<in>set items. prefix ''mediawiki-special:'' x"
    using special_items_form by blast
next
  assume "map_of entry ''fullurl'' = Some (JStr u)"
  then show "article_item lib (JObj entry) = Returns (''mediawiki-article:'' @ u)"
    by (simp add: article_item_def)
next
  assume "map_of entry ''url'' = Some (JStr u)"
  then show "media_item lib (JObj entry) = Returns (''mediawiki-media:'' @ u)"
    by (simp add: media_item_def)
next
  show "special_item lib template_url (JStr name) =
        ''mediawiki-special:'' @ replace ''$1'' (''Special:'' @ name) template_url"
    by (simp add: special_item_def)
qed

theorem items_carry_mediawiki_kind_witness:
  "map_of [(''fullurl'', JStr ''https://wiki.example/wiki/A'')] ''fullurl''
     = Some (JStr ''https://wiki.example/wiki/A'')
   \<and> article_item example_lib (JObj [(''fullurl'', JStr ''https://wiki.example/wiki/A'')])
     = Returns ''mediawiki-article:https://wiki.example/wiki/A''
   \<and> map_of [(''url'', JStr ''https://wiki.example/images/A.png'')] ''url''
     = Some (JStr ''https://wiki.example/images/A.png'')
   \<and> media_item example_lib (JObj [(''url'', JStr ''https://wiki.example/images/A.png'')])
     = Returns ''mediawiki-media:https://wiki.example/images/A.png''
   \<and> fst (get_all_pages example_lib api (JNum 0) (World [last_page] [] 0))
     = Returns [''mediawiki-article:https://wiki.example/wiki/A'']
   \<and> list_all (prefix ''mediawiki-article:'') [''mediawiki-article:https://wiki.example/wiki/A'']
   \<and> fst (get_all_images example_lib api (World [media_page] [] 0))
     = Returns [''mediawiki-media:https://wiki.example/images/A.png'']
   \<and> list_all (prefix ''mediawiki-media:'') [''mediawiki-media:https://wiki.example/images/A.png'']
   \<and> fst (get_special_pages example_lib api ''/wiki/$1'' (World [aliases_reply [export_entry]] [] 0))
     = Returns [''mediawiki-special:/wiki/Special:Export'',
                ''mediawiki-special:/wiki/Special:ExportPages'']
   \<and> list_all (prefix ''mediawiki-special:'')
        [''mediawiki-special:/wiki/Special:Export'', ''mediawiki-special:/wiki/Special:ExportPages'']"
proof -
  have page: "map_of [(''fullurl'', JStr ''https://wiki.example/wiki/A'')] ''fullurl''
     = Some (JStr ''https://wiki.example/wiki/A'')"
    by simp
  have img: "map_of [(''url'', JStr ''https://wiki.example/images/A.png'')] ''url''
     = Some (JStr ''https://wiki.example/images/A.png'')"
    by simp
  have pages: "fst (get_all_pages example_lib api (JNum 0) (World [last_page] [] 0))
     = Returns [''mediawiki-article:https://wiki.example/wiki/A'']"
    by (simp add: example_replies run_walk)
  have images: "fst (get_all_images example_lib api (World [media_page] [] 0))
     = Returns [''mediawiki-media:https://wiki.example/images/A.png'']"
    by (simp add: example_replies run_walk)
  have special: "fst (get_special_pages example_lib api ''/wiki/$1''
                        (World [aliases_reply [export_entry]] [] 0))
     = Returns [''mediawiki-special:/wiki/Special:Export'',
                ''mediawiki-special:/wiki/Special:ExportPages'']"
    by (simp add: example_replies run_special)
  from items_carry_mediawiki_kind
    [of "[(''fullurl'', JStr ''https://wiki.example/wiki/A'')]" "''https://wiki.example/wiki/A''"
        example_lib "[]" "[]" api "JNum 0" "World [last_page] [] 0"
        "[''mediawiki-article:https://wiki.example/wiki/A'']"]
  have 1: "article_item example_lib (JObj [(''fullurl'', JStr ''https://wiki.example/wiki/A'')])
          = Returns (''mediawiki-article:'' @ ''https://wiki.example/wiki/A'')"
    and 2: "\<forall>x\<in>set [''mediawiki-article:https://wiki.example/wiki/A''].
           prefix ''mediawiki-article:'' x"
    using page pages by blast+
  from items_carry_mediawiki_kind
    [of "[(''url'', JStr ''https://wiki.example/images/A.png'')]" "''https://wiki.example/images/A.png''"
        example_lib "[]" "[]" api "JNum 0" "World [media_page] [] 0"
        "[''mediawiki-media:https://wiki.example/images/A.png'']"]
  have 3: "media_item example_lib (JObj [(''url'', JStr ''https://wiki.example/images/A.png'')])
          = Returns (''mediawiki-media:'' @ ''https://wiki.example/images/A.png'')"
    and 4: "\<forall>x\<in>set [''mediawiki-media:https://wiki.example/images/A.png''].
           prefix ''mediawiki-media:'' x"
    using img images by blast+
  from items_carry_mediawiki_kind
    [of "[]" "[]" example_lib "''/wiki/$1''" "[]" api "JNum 0"
        "World [aliases_reply [export_entry]] [] 0"
        "[''mediawiki-special:/wiki/Special:Export'', ''mediawiki-special:/wiki/Special:ExportPages'']"]
  have 5: "\<forall>x\<in>set [''mediawiki-special:/wiki/Special:Export'',
                     ''mediawiki-special:/wiki/Special:ExportPages''].
           prefix ''mediawiki-special:'' x"
    using special by blast
  from page img pages images special 1 2 3 4 5 show ?thesis
    by (simp add: list_all_iff)
qed

text \<open>
  The claim as it is written fails on the first article: the item is not
  \<^verbatim>\<open>article:\<close> followed by the entry's \<^verbatim>\<open>fullurl\<close>, and its kind is none of
  \<^verbatim>\<open>article\<close>, \<^verbatim>\<open>media\<close>, \<^verbatim>\<open>special\<close>.
\<close>

theorem article_item_is_not_bare_kind:
  "fst (get_all_pages example_lib api (JNum 0) (World [last_page] [] 0))
     = Returns [''mediawiki-article:https://wiki.example/wiki/A'']
   \<and> ''mediawiki-article:https://wiki.example/wiki/A'' \<noteq> ''article:https://wiki.example/wiki/A''
   \<and> takeWhile (\<lambda>c. c \<noteq> CHR '':'') ''mediawiki-article:https://wiki.example/wiki/A''
       \<notin> {''article'', ''media'', ''special''}"
  by (simp add: example_replies run_walk)

section \<open>Continuation\<close>

text \<open>
  C2. The claim is what the comment in the script intends (``required for continue on
  MW <1.21''), but the script reads the member \<^verbatim>\<open>categories\<close> of the legacy
  continuation in both walks. A server before 1.21 keys the continuation of the article
  walk by \<^verbatim>\<open>allpages\<close>; there the walk does not go on to the second page: it raises
  \<^verbatim>\<open>KeyError('categories')\<close> after the first request, and the reply that was waiting
  is never asked for.
\<close>

theorem legacy_continuation_raises:
  "get_all_pages example_lib api (JNum 0) (World [legacy_page, last_page] [] 0) =
     (Raises (KeyError ''categories''),
      World [last_page] [Get api (pages_params (JNum 0)), Print (GotArticles 1), Sleep 0] 0)"
  by (simp add: example_replies run_walk)

text \<open>
  C5, as the script has it. Every request of a walk carries the walk's limit parameter
  (\<^verbatim>\<open>gaplimit\<close> for the articles, \<^verbatim>\<open>ailimit\<close> for the media) and a \<^verbatim>\<open>continue\<close>
  parameter, since merging a continuation never removes a parameter. The first request of
  a walk carries the parameters the walk starts with: the limit 50 and an empty
  \<^verbatim>\<open>continue\<close>. A merge overwrites the parameters the continuation names, so the limit
  is 50 in every request provided no continuation of the server names it, and
  \<^verbatim>\<open>continue\<close> is empty in every request provided no continuation names it (the
  continuation of the modern protocol does name \<^verbatim>\<open>continue\<close>). And in any round of
  either walk, when the reply's continuation is an object, the next request carries for
  every parameter the object names the value the object gives it.
\<close>

theorem walk_requests_limit_and_continue:
  "limit_and_continue ''gaplimit'' (pages_params gapnamespace) (replies w)
     (requests (added w (snd (get_all_pages lib api_url gapnamespace w))))
   \<and> limit_and_continue ''ailimit'' images_params (replies w)
     (requests (added w (snd (get_all_images lib api_url w))))
   \<and> (\<forall>entries\<in>{page_entries lib, image_entries lib}.
        json_body resp = Some data \<and> entries data = Returns new
        \<and> continuation data = Returns (Some (JObj kvs))
        \<and> distinct (map fst kvs) \<and> map_of kvs k = Some v \<longrightarrow>
        (\<exists>ps more.
           requests (added (World (Reply resp # rs) tr d)
             (snd (walk entries progress api_url params found (World (Reply resp # rs) tr d))))
             = params # ps # more
           \<and> dict_get ps (JStr k) = Some v))"
proof (intro conjI ballI impI)
  obtain rs0 tr0 d0 where w: "w = World rs0 tr0 d0"
    by (cases w)
  have "dict_get (pages_params gapnamespace) (JStr ''gaplimit'') = Some (JStr ''50'')"
    and "dict_get (pages_params gapnamespace) (JStr ''continue'') = Some (JStr [])"
    by (simp_all add: pages_params_def)
  then show "limit_and_continue ''gaplimit'' (pages_params gapnamespace) (replies w)
     (requests (added w (snd (get_all_pages lib api_url gapnamespace w))))"
    unfolding w get_all_pages_def world.sel by (rule walk_limit_and_continue)
  have "dict_get images_params (JStr ''ailimit'') = Some (JStr ''50'')"
    and "dict_get images_params (JStr ''continue'') = Some (JStr [])"
    by (simp_all add: images_params_def)
  then show "limit_and_continue ''ailimit'' images_params (replies w)
     (requests (added w (snd (get_all_images lib api_url w))))"
    unfolding w get_all_images_def world.sel by (rule walk_limit_and_continue)
next
  fix entries
  assume "json_body resp = Some data \<and> entries data = Returns new
        \<and> continuation data = Returns (Some (JObj kvs))
        \<and> distinct (map fst kvs) \<and> map_of kvs k = Some v"
  then have "json_body resp = Some data" and "entries data = Returns new"
    and "continuation data = Returns (Some (JObj kvs))"
    and "distinct (map fst kvs)" and "map_of kvs k = Some v"
    by simp_all
  then show "\<exists>ps more.
           requests (added (World (Reply resp # rs) tr d)
             (snd (walk entries progress api_url params found (World (Reply resp # rs) tr d))))
             = params # ps # more
           \<and> dict_get ps (JStr k) = Some v"
    by (rule walk_after_merge)
qed

theorem walk_requests_limit_and_continue_witness:
  "scripted (untouched ''gaplimit'') [modern_page, last_page]
   \<and> list_all (\<lambda>ps. dict_get ps (JStr ''gaplimit'') = Some (JStr ''50''))
       (requests (added (World [modern_page, last_page] [] 0)
          (snd (get_all_pages example_lib api (JNum 0) (World [modern_page, last_page] [] 0)))))
   \<and> continuation (JObj
         [(''continue'', JObj [(''gapcontinue'', JStr ''B''), (''continue'', JStr ''gapcontinue||'')]),
          (''query'', JObj [(''pages'', pages_A)])])
       = Returns (Some (JObj [(''gapcontinue'', JStr ''B''), (''continue'', JStr ''gapcontinue||'')]))
   \<and> map_of [(''gapcontinue'', JStr ''B''), (''continue'', JStr ''gapcontinue||'')] ''continue''
       = Some (JStr ''gapcontinue||'')
   \<and> dict_get (requests (added (World [modern_page, last_page] [] 0)
          (snd (get_all_pages example_lib api (JNum 0) (World [modern_page, last_page] [] 0)))) ! 1)
        (JStr ''continue'') = Some (JStr ''gapcontinue||'')"
proof -
  let ?data = "JObj
         [(''continue'', JObj [(''gapcontinue'', JStr ''B''), (''continue'', JStr ''gapcontinue||'')]),
          (''query'', JObj [(''pages'', pages_A)])]"
  let ?resp = "\<lparr>page_links = [], json_body = Some ?data\<rparr>"
  have h: "scripted (untouched ''gaplimit'') [modern_page, last_page]"
    by (simp add: scripted_def untouched_def example_replies continuation_def)
  have c: "continuation ?data
       = Returns (Some (JObj [(''gapcontinue'', JStr ''B''), (''continue'', JStr ''gapcontinue||'')]))"
    by (simp add: continuation_def)
  have new: "page_entries example_lib ?data = Returns [''mediawiki-article:https://wiki.example/wiki/A'']"
    by (simp add: page_entries_def article_item_def pages_A_def)
  have m: "map_of [(''gapcontinue'', JStr ''B''), (''continue'', JStr ''gapcontinue||'')] ''continue''
       = Some (JStr ''gapcontinue||'')"
    by simp
  have page: "modern_page = Reply ?resp"
    by (simp add: modern_page_def json_reply_def)
  note inst = walk_requests_limit_and_continue [of "JNum 0" "World [modern_page, last_page] [] 0" example_lib api
      "?resp" "?data" "[''mediawiki-article:https://wiki.example/wiki/A'']"
      "[(''gapcontinue'', JStr ''B''), (''continue'', JStr ''gapcontinue||'')]" "''continue''"
      "JStr ''gapcontinue||''" "[last_page]" "[]" 0 GotArticles "pages_params (JNum 0)" "[]"]
  from inst h have 1: "list_all (\<lambda>ps. dict_get ps (JStr ''gaplimit'') = Some (JStr ''50''))
       (requests (added (World [modern_page, last_page] [] 0)
          (snd (get_all_pages example_lib api (JNum 0) (World [modern_page, last_page] [] 0)))))"
    by (simp add: limit_and_continue_def list_all_iff)
  from inst c new m
  have "\<exists>ps more.
          requests (added (World [modern_page, last_page] [] 0)
            (snd (get_all_pages example_lib api (JNum 0) (World [modern_page, last_page] [] 0))))
            = pages_params (JNum 0) # ps # more
          \<and> dict_get ps (JStr ''continue'') = Some (JStr ''gapcontinue||'')"
    by (simp add: page get_all_pages_def)
  then have 2: "dict_get (requests (added (World [modern_page, last_page] [] 0)
          (snd (get_all_pages example_lib api (JNum 0) (World [modern_page, last_page] [] 0)))) ! 1)
        (JStr ''continue'') = Some (JStr ''gapcontinue||'')"
    by auto
  from h 1 c m 2 show ?thesis
    by simp
qed

text \<open>
  The claim as it is written fails at the second request of a walk against a server of
  the modern protocol: its \<^verbatim>\<open>continue\<close> parameter is what the server sent, not empty.
\<close>

theorem continue_not_empty_after_merge:
  "dict_get (requests (trace (snd (get_all_pages example_lib api (JNum 0)
       (World [modern_page, last_page] [] 0)))) ! 1) (JStr ''continue'')
     = Some (JStr ''gapcontinue||'')"
  by (simp add: example_replies run_walk)

text \<open>
  C4, as the script has it. The only malformed reply a walk puts up with is one without
  a \<^verbatim>\<open>query\<close> member: it adds no item; if a continuation can be merged from it the walk
  goes on with the merged parameters and the items it had, and if it has neither
  \<^verbatim>\<open>continue\<close> nor \<^verbatim>\<open>query-continue\<close> the walk returns the items it had. The request,
  the progress message and the pause of the round are the same as for any other reply.
  A reply whose \<^verbatim>\<open>query\<close> member is an object without the listing of the walk
  (\<^verbatim>\<open>pages\<close> for the articles, \<^verbatim>\<open>allimages\<close> for the media) is not put up with: the
  walk raises a \<^verbatim>\<open>KeyError\<close> right after the request, before it prints or pauses.
\<close>

theorem reply_without_query_is_skipped:
  assumes "json_body resp = Some data"
  shows "(py_in ''query'' data = Returns False \<longrightarrow>
          (\<forall>entries\<in>{page_entries lib, image_entries lib}.
             entries data = Returns []
             \<and> (\<forall>params'. next_params params data = Returns (Some params') \<longrightarrow>
                  walk entries progress api_url params found (World (Reply resp # rs) tr d) =
                  walk entries progress api_url params' found
                    (World rs (tr @ [Get api_url params, Print (progress (length found)), Sleep d]) d))
             \<and> (py_in ''continue'' data = Returns False \<and> py_in ''query-continue'' data = Returns False \<longrightarrow>
                  walk entries progress api_url params found (World (Reply resp # rs) tr d) =
                  (Returns found,
                   World rs (tr @ [Get api_url params, Print (progress (length found)), Sleep d]) d))))
       \<and> (\<forall>q. subscript data ''query'' = Returns (JObj q) \<longrightarrow>
            (map_of q ''pages'' = None \<longrightarrow>
               walk (page_entries lib) progress api_url params found (World (Reply resp # rs) tr d) =
               (Raises (KeyError ''pages''), World rs (tr @ [Get api_url params]) d))
          \<and> (map_of q ''allimages'' = None \<longrightarrow>
               walk (image_entries lib) progress api_url params found (World (Reply resp # rs) tr d) =
               (Raises (KeyError ''allimages''), World rs (tr @ [Get api_url params]) d)))"
proof (intro ballI conjI allI impI)
  fix entries
  assume noq: "py_in ''query'' data = Returns False"
    and "entries \<in> {page_entries lib, image_entries lib}"
  then show none: "entries data = Returns []"
    by (auto simp: page_entries_def image_entries_def)
  {
    fix params'
    assume "next_params params data = Returns (Some params')"
    with none show "walk entries progress api_url params found (World (Reply resp # rs) tr d) =
        walk entries progress api_url params' found
          (World rs (tr @ [Get api_url params, Print (progress (length found)), Sleep d]) d)"
      by (simp add: walk_Reply [OF assms(1)])
  }
  assume "py_in ''continue'' data = Returns False \<and> py_in ''query-continue'' data = Returns False"
  then have "next_params params data = Returns None"
    by (simp add: next_params_def continuation_def)
  with none show "walk entries progress api_url params found (World (Reply resp # rs) tr d) =
      (Returns found,
       World rs (tr @ [Get api_url params, Print (progress (length found)), Sleep d]) d)"
    by (simp add: walk_Reply [OF assms(1)])
next
  fix q
  assume q: "subscript data ''query'' = Returns (JObj q)"
  then obtain kvs where data: "data = JObj kvs" and kvs: "map_of kvs ''query'' = Some (JObj q)"
    by (cases data) (auto split: option.splits)
  from kvs have has: "py_in ''query'' data = Returns True"
    by (auto simp: data dest!: map_of_SomeD intro!: image_eqI [where x = "(''query'', JObj q)"])
  {
    assume "map_of q ''pages'' = None"
    with q has have "page_entries lib data = Raises (KeyError ''pages'')"
      by (simp add: page_entries_def)
    then show "walk (page_entries lib) progress api_url params found (World (Reply resp # rs) tr d) =
               (Raises (KeyError ''pages''), World rs (tr @ [Get api_url params]) d)"
      by (simp add: walk_Reply [OF assms(1)])
  }
  assume "map_of q ''allimages'' = None"
  with q has have "image_entries lib data = Raises (KeyError ''allimages'')"
    by (simp add: image_entries_def)
  then show "walk (image_entries lib) progress api_url params found (World (Reply resp # rs) tr d) =
             (Raises (KeyError ''allimages''), World rs (tr @ [Get api_url params]) d)"
    by (simp add: walk_Reply [OF assms(1)])
qed

theorem reply_without_query_is_skipped_witness:
  "json_body \<lparr>page_links = [], json_body = Some (JObj [(''batchcomplete'', JStr [])])\<rparr>
     = Some (JObj [(''batchcomplete'', JStr [])])
   \<and> py_in ''query'' (JObj [(''batchcomplete'', JStr [])]) = Returns False
   \<and> py_in ''continue'' (JObj [(''batchcomplete'', JStr [])]) = Returns False
   \<and> py_in ''query-continue'' (JObj [(''batchcomplete'', JStr [])]) = Returns False
   \<and> get_all_pages example_lib api (JNum 0) (World [empty_page, last_page] [] 0) =
       (Returns [],
        World [last_page] [Get api (pages_params (JNum 0)), Print (GotArticles 0), Sleep 0] 0)
   \<and> fst (get_all_pages example_lib api (JNum 0) (World [no_query_page, empty_page, last_page] [] 0))
       = Returns []
   \<and> replies (snd (get_all_pages example_lib api (JNum 0)
                       (World [no_query_page, empty_page, last_page] [] 0))) = [last_page]
   \<and> subscript (JObj [(''query'', JObj [])]) ''query'' = Returns (JObj [])
   \<and> get_all_pages example_lib api (JNum 0)
         (World [json_reply (JObj [(''query'', JObj [])]), last_page] [] 0) =
       (Raises (KeyError ''pages''), World [last_page] [Get api (pages_params (JNum 0))] 0)"
  using reply_without_query_is_skipped [of "\<lparr>page_links = [], json_body = Some (JObj [(''batchcomplete'', JStr [])])\<rparr>"
      "JObj [(''batchcomplete'', JStr [])]" example_lib "pages_params (JNum 0)" GotArticles api
      "[]" "[last_page]" "[]" 0]
    reply_without_query_is_skipped [of "\<lparr>page_links = [], json_body = Some (JObj [(''query'', JObj [])])\<rparr>"
      "JObj [(''query'', JObj [])]" example_lib "pages_params (JNum 0)" GotArticles api
      "[]" "[last_page]" "[]" 0]
  by (simp add: example_replies run_walk)

text \<open>
  The claim as it is written fails for a reply that has a \<^verbatim>\<open>query\<close> member without the
  listing in it: though the reply carries a continuation and the next page is waiting,
  the walk raises \<^verbatim>\<open>KeyError('pages')\<close>.
\<close>

theorem hollow_query_raises:
  "get_all_pages example_lib api (JNum 0) (World [hollow_page, last_page] [] 0) =
     (Raises (KeyError ''pages''), World [last_page] [Get api (pages_params (JNum 0))] 0)"
  by (simp add: example_replies run_walk)

section \<open>Special pages\<close>

lemma collect_names_append:
  "collect_names (xs @ ys) s = and_then (collect_names xs s) (collect_names ys)"
proof (induction xs arbitrary: s)
  case Nil
  show ?case by simp
next
  case (Cons x xs)
  show ?case
    by (cases "add_entry x s") (simp_all add: Cons.IH)
qed

text \<open>
  C10. An entry that is an object with a hashable \<^verbatim>\<open>realname\<close> and no \<^verbatim>\<open>aliases\<close>
  member does not fail: it adds its \<^verbatim>\<open>realname\<close> to the set of names and nothing else.
  The entries before it and after it are processed as they would be around an entry with
  an empty list of aliases.
\<close>

theorem entry_without_aliases:
  assumes "map_of entry ''realname'' = Some realname" and "hashable realname"
    and "map_of entry ''aliases'' = None"
  shows "add_entry (JObj entry) names =
           Returns (if list_ex (\<lambda>y. key_eq y realname) names then names else names @ [realname])
         \<and> collect_names (before @ JObj entry # after) names =
           and_then (collect_names before names) (\<lambda>s.
             collect_names after
               (if list_ex (\<lambda>y. key_eq y realname) s then s else s @ [realname]))
         \<and> collect_names (before @ JObj entry # after) names =
           collect_names (before @ JObj (entry @ [(''aliases'', JArr [])]) # after) names"
proof -
  have one: "add_entry (JObj entry) s =
           Returns (if list_ex (\<lambda>y. key_eq y realname) s then s else s @ [realname])" for s
    using assms by (simp add: add_entry_def set_add_def)
  have same: "add_entry (JObj (entry @ [(''aliases'', JArr [])])) s = add_entry (JObj entry) s" for s
    using assms by (simp add: add_entry_def set_add_def map_add_def)
  have step: "collect_names (JObj entry # after) =
      (\<lambda>s. collect_names after
         (if list_ex (\<lambda>y. key_eq y realname) s then s else s @ [realname]))"
    by (rule ext) (simp add: one)
  have step': "collect_names (JObj (entry @ [(''aliases'', JArr [])]) # after) =
      collect_names (JObj entry # after)"
    by (rule ext) (simp add: same)
  show ?thesis
    by (simp only: one collect_names_append step step' simp_thms)
qed

theorem entry_without_aliases_witness:
  "map_of [(''realname'', JStr ''Version'')] ''realname'' = Some (JStr ''Version'')
   \<and> hashable (JStr ''Version'')
   \<and> map_of [(''realname'', JStr ''Version'')] ''aliases'' = None
   \<and> collect_names ([export_entry] @ JObj [(''realname'', JStr ''Version'')] # [export_entry]) [] =
       Returns [JStr ''Export'', JStr ''ExportPages'', JStr ''Version'']"
  using entry_without_aliases [of "[(''realname'', JStr ''Version'')]" "JStr ''Version''" "[]" "[export_entry]"
      "[export_entry]"]
  by (simp add: export_entry_def add_entry_def set_add_def key_eq_def)

text \<open>
  C7, as the script has it. For the entry \<^verbatim>\<open>{realname: "Export", aliases: ["ExportPages"]}\<close>
  and the template \<^verbatim>\<open>/wiki/$1\<close> the items are exactly
  \<^verbatim>\<open>mediawiki-special:/wiki/Special:Export\<close> and \<^verbatim>\<open>mediawiki-special:/wiki/Special:ExportPages\<close>
  (with the kind \<^verbatim>\<open>mediawiki-special\<close>, not \<^verbatim>\<open>special\<close>), each once; the same holds
  when the entry comes twice and a third entry names the same two pages the other way
  round. Whatever the reply, no item is returned twice.
\<close>

theorem special_pages_listed_once:
  "(\<exists>items. fst (get_special_pages lib api_url ''/wiki/$1''
                   (World (aliases_reply [export_entry] # rs) tr d)) = Returns items
            \<and> set items = {''mediawiki-special:/wiki/Special:Export'',
                            ''mediawiki-special:/wiki/Special:ExportPages''}
            \<and> distinct items)
   \<and> (\<exists>items. fst (get_special_pages lib api_url ''/wiki/$1''
                   (World (aliases_reply
                      [export_entry, export_entry,
                       JObj [(''realname'', JStr ''ExportPages''), (''aliases'', JArr [JStr ''Export''])]]
                      # rs) tr d)) = Returns items
            \<and> set items = {''mediawiki-special:/wiki/Special:Export'',
                            ''mediawiki-special:/wiki/Special:ExportPages''}
            \<and> distinct items)
   \<and> (fst (get_special_pages lib api_url template_url w) = Returns items \<longrightarrow> distinct items)"
proof (intro conjI impI)
  assume "fst (get_special_pages lib api_url template_url w) = Returns items"
  then obtain data where "special_items lib template_url data = Returns items"
    using get_special_pages_items by blast
  then show "distinct items"
    by (auto simp: special_items_def and_then_Returns)
qed (simp_all add: example_replies run_special)

theorem special_pages_listed_once_witness:
  "fst (get_special_pages example_lib api ''/wiki/$1'' (World [aliases_reply [export_entry]] [] 0))
     = Returns [''mediawiki-special:/wiki/Special:Export'',
                ''mediawiki-special:/wiki/Special:ExportPages'']
   \<and> distinct [''mediawiki-special:/wiki/Special:Export'',
                ''mediawiki-special:/wiki/Special:ExportPages'']"
proof -
  have run: "fst (get_special_pages example_lib api ''/wiki/$1''
                    (World [aliases_reply [export_entry]] [] 0))
     = Returns [''mediawiki-special:/wiki/Special:Export'',
                ''mediawiki-special:/wiki/Special:ExportPages'']"
    by (simp add: example_replies run_special)
  with special_pages_listed_once [of example_lib api "[]" "[]" 0 "''/wiki/$1''" "World [aliases_reply [export_entry]] [] 0"
      "[''mediawiki-special:/wiki/Special:Export'', ''mediawiki-special:/wiki/Special:ExportPages'']"]
  show ?thesis
    by blast
qed

text \<open>The item \<^verbatim>\<open>special:/wiki/Special:Export\<close> of the claim is not among the items.\<close>

theorem special_item_is_not_bare_kind:
  "fst (get_special_pages example_lib api ''/wiki/$1'' (World [aliases_reply [export_entry]] [] 0))
     = Returns [''mediawiki-special:/wiki/Special:Export'',
                ''mediawiki-special:/wiki/Special:ExportPages'']
   \<and> ''special:/wiki/Special:Export''
       \<notin> set [''mediawiki-special:/wiki/Special:Export'',
                 ''mediawiki-special:/wiki/Special:ExportPages'']"
  by (simp add: example_replies run_special)

section \<open>The orchestrator\<close>

lemma namespaces_loop_visits:
  assumes "fst (namespaces_loop lib api_url nss w) = Returns ()"
  shows "\<exists>new. trace (snd (namespaces_loop lib api_url nss w)) = trace w @ new
               \<and> visited new = to_visit nss"
  using assms
proof (induction nss arbitrary: w)
  case Nil
  show ?case by simp
next
  case (Cons ns nss)
  from Cons.prems obtain i where i: "subscript ns ''id'' = Returns i"
    by (cases "subscript ns ''id''") simp_all
  from Cons.prems i obtain neg where neg: "py_negative i = Returns neg"
    by (cases "py_negative i") simp_all
  show ?case
  proof (cases neg)
    case True
    with i neg Cons.prems have "fst (namespaces_loop lib api_url nss w) = Returns ()"
      by simp
    from Cons.IH [OF this] i neg True show ?thesis
      by simp
  next
    case False
    from Cons.prems i neg False obtain canonical
      where c: "py_get ns ''canonical'' (JStr []) = Returns canonical"
      by (cases "py_get ns ''canonical'' (JStr [])") simp_all
    let ?w0 = "emit (Print (GettingPages i canonical)) w"
    obtain out w1 where run: "get_all_pages lib api_url i ?w0 = (out, w1)"
      by (cases "get_all_pages lib api_url i ?w0")
    from Cons.prems i neg False c run obtain pages where out: "out = Returns pages"
      by (cases out) simp_all
    from Cons.prems i neg False c run out
    have rest: "fst (namespaces_loop lib api_url nss (save_items pages w1)) = Returns ()"
      and same: "namespaces_loop lib api_url (ns # nss) w =
                 namespaces_loop lib api_url nss (save_items pages w1)"
      by simp_all
    from get_all_pages_adds [of lib api_url i ?w0] run
    obtain new1 where new1: "trace w1 = trace w @ [Print (GettingPages i canonical)] @ new1"
      and quiet: "visited new1 = []"
      by auto
    from Cons.IH [OF rest] obtain new2
      where new2: "trace (snd (namespaces_loop lib api_url nss (save_items pages w1)))
                   = trace (save_items pages w1) @ new2"
        and v2: "visited new2 = to_visit nss"
      by blast
    have "trace (snd (namespaces_loop lib api_url (ns # nss) w))
            = trace w @ (Print (GettingPages i canonical) # new1 @ Save pages # new2)"
      unfolding same new2 by (simp add: new1)
    moreover have "visited (Print (GettingPages i canonical) # new1 @ Save pages # new2)
            = to_visit (ns # nss)"
      by (simp add: quiet v2 i neg False)
    ultimately show ?thesis
      by blast
  qed
qed

lemma namespaces_loop_skips:
  "namespaces_loop lib api_url nss w =
   namespaces_loop lib api_url (filter (\<lambda>ns. \<not> skipped ns) nss) w"
proof (induction nss arbitrary: w)
  case Nil
  show ?case by simp
next
  case (Cons ns nss)
  show ?case
  proof (cases "skipped ns")
    case True
    then obtain i where "subscript ns ''id'' = Returns i" and "py_negative i = Returns True"
      by (auto simp: skipped_def and_then_Returns)
    with True Cons.IH show ?thesis
      by simp
  next
    case False
    then show ?thesis
      by (simp add: Cons.IH split: outcome.split prod.split)
  qed
qed

lemma subscript_Returns_py_get:
  "subscript ns k = Returns v \<Longrightarrow> \<exists>c. py_get ns k' dflt = Returns c"
  by (cases ns) simp_all

lemma to_visit_to_walk: "to_visit nss = map fst (to_walk nss)"
proof (induction nss)
  case Nil
  show ?case by simp
next
  case (Cons ns nss)
  show ?case
  proof (cases "subscript ns ''id''")
    case (Returns i)
    from subscript_Returns_py_get [OF this] obtain c
      where c: "py_get ns ''canonical'' (JStr []) = Returns c"
      by blast
    show ?thesis
      by (cases "py_negative i") (auto simp: Returns c Cons.IH)
  qed (simp_all add: Cons.IH)
qed

lemma namespaces_loop_walks:
  assumes "fst (namespaces_loop lib api_url nss w) = Returns ()"
  shows "\<exists>new. trace (snd (namespaces_loop lib api_url nss w)) = trace w @ new
               \<and> walk_starts b new = map pages_params (to_visit nss)
               \<and> length (saves new) = length (to_visit nss)"
  using assms
proof (induction nss arbitrary: w b)
  case Nil
  show ?case by simp
next
  case (Cons ns nss)
  from Cons.prems obtain i where i: "subscript ns ''id'' = Returns i"
    by (cases "subscript ns ''id''") simp_all
  from Cons.prems i obtain neg where neg: "py_negative i = Returns neg"
    by (cases "py_negative i") simp_all
  show ?case
  proof (cases neg)
    case True
    with i neg Cons.prems have "fst (namespaces_loop lib api_url nss w) = Returns ()"
      by simp
    from Cons.IH [OF this, of b] i neg True show ?thesis
      by simp
  next
    case False
    from Cons.prems i neg False obtain canonical
      where c: "py_get ns ''canonical'' (JStr []) = Returns canonical"
      by (cases "py_get ns ''canonical'' (JStr [])") simp_all
    let ?w0 = "emit (Print (GettingPages i canonical)) w"
    obtain out w1 where run: "get_all_pages lib api_url i ?w0 = (out, w1)"
      by (cases "get_all_pages lib api_url i ?w0")
    from Cons.prems i neg False c run obtain pages where out: "out = Returns pages"
      by (cases out) simp_all
    from Cons.prems i neg False c run out
    have rest: "fst (namespaces_loop lib api_url nss (save_items pages w1)) = Returns ()"
      and same: "namespaces_loop lib api_url (ns # nss) w =
                 namespaces_loop lib api_url nss (save_items pages w1)"
      by simp_all
    from get_all_pages_shape [OF run [unfolded out]]
    obtain new1 where new1: "trace w1 = trace w @ [Print (GettingPages i canonical)] @ new1"
      and start: "walk_starts False new1 = [pages_params i]" and quiet: "saves new1 = []"
      by auto
    from Cons.IH [OF rest, of False] obtain new2
      where new2: "trace (snd (namespaces_loop lib api_url nss (save_items pages w1)))
                   = trace (save_items pages w1) @ new2"
        and s2: "walk_starts False new2 = map pages_params (to_visit nss)"
        and v2: "length (saves new2) = length (to_visit nss)"
      by blast
    have "trace (snd (namespaces_loop lib api_url (ns # nss) w))
            = trace w @ (Print (GettingPages i canonical) # new1 @ Save pages # new2)"
      unfolding same new2 by (simp add: new1)
    moreover have "walk_starts b (Print (GettingPages i canonical) # new1 @ Save pages # new2)
            = map pages_params (to_visit (ns # nss))"
      by (simp add: walk_starts_append start s2 i neg False)
    moreover have "length (saves (Print (GettingPages i canonical) # new1 @ Save pages # new2))
            = length (to_visit (ns # nss))"
      by (simp add: quiet v2 i neg False)
    ultimately show ?thesis
      by blast
  qed
qed

lemma namespaces_loop_walk_each:
  "list_all readable nss \<Longrightarrow>
   namespaces_loop lib api_url nss w = walk_each lib api_url (to_walk nss) w"
proof (induction nss arbitrary: w)
  case Nil
  show ?case by simp
next
  case (Cons ns nss)
  from Cons.prems obtain i neg where i: "subscript ns ''id'' = Returns i"
    and neg: "py_negative i = Returns neg"
    by (auto simp: readable_def and_then_Returns split: outcome.splits)
  from subscript_Returns_py_get [OF i] obtain c
    where c: "py_get ns ''canonical'' (JStr []) = Returns c"
    by blast
  from Cons.prems have IH: "namespaces_loop lib api_url nss w' = walk_each lib api_url (to_walk nss) w'"
    for w'
    by (simp add: Cons.IH)
  show ?case
    by (simp add: i neg c IH split: outcome.split prod.split)
qed

text \<open>
  C6. The loop over the namespace table does what the loop over the table without its
  negative namespaces does: a namespace with a negative id costs no request and leaves
  no trace. When the loop comes to its end, the namespaces it announced, each right before
  the walk for it, are the namespaces of the table with a non-negative id, in the order
  of the table. And the walk for a namespace begins with the request whose
  \<^verbatim>\<open>gapnamespace\<close> is that namespace's id.

  The loop runs the walks, and no others. On a table whose ids are all readable it is
  \<open>walk_each\<close> on the namespaces with a non-negative id: for each of them in table
  order it announces the namespace, runs \<^verbatim>\<open>get_all_pages\<close> for its id and saves what
  the walk returned, and it does nothing else. When the loop comes to its end, the walks
  that were begun, read off the requests, are one for each non-negative id in table order,
  each begun by the first request of that namespace (\<^verbatim>\<open>gapnamespace\<close> the id, limit 50,
  empty \<^verbatim>\<open>continue\<close>), and as many batches were saved as walks were run.
\<close>

theorem namespaces_visited_in_order:
  "namespaces_loop lib api_url nss w =
     namespaces_loop lib api_url (filter (\<lambda>ns. \<not> skipped ns) nss) w
   \<and> (fst (namespaces_loop lib api_url nss w) = Returns () \<longrightarrow>
        visited (added w (snd (namespaces_loop lib api_url nss w))) = to_visit nss)
   \<and> (\<exists>more. added w (snd (get_all_pages lib api_url i w)) = Get api_url (pages_params i) # more)
   \<and> (list_all readable nss \<longrightarrow>
        namespaces_loop lib api_url nss w = walk_each lib api_url (to_walk nss) w)
   \<and> map fst (to_walk nss) = to_visit nss
   \<and> (fst (namespaces_loop lib api_url nss w) = Returns () \<longrightarrow>
        walk_starts False (added w (snd (namespaces_loop lib api_url nss w)))
          = map pages_params (to_visit nss)
        \<and> length (saves (added w (snd (namespaces_loop lib api_url nss w))))
          = length (to_visit nss))"
proof (intro conjI impI)
  show "namespaces_loop lib api_url nss w =
     namespaces_loop lib api_url (filter (\<lambda>ns. \<not> skipped ns) nss) w"
    by (rule namespaces_loop_skips)
next
  assume "fst (namespaces_loop lib api_url nss w) = Returns ()"
  from namespaces_loop_visits [OF this]
  show "visited (added w (snd (namespaces_loop lib api_url nss w))) = to_visit nss"
    by (auto simp: added_def)
next
  obtain rs tr d where w: "w = World rs tr d"
    by (cases w)
  show "\<exists>more. added w (snd (get_all_pages lib api_url i w)) = Get api_url (pages_params i) # more"
    unfolding w get_all_pages_def by (rule walk_first_request)
next
  show "map fst (to_walk nss) = to_visit nss"
    by (simp add: to_visit_to_walk)
next
  assume "list_all readable nss"
  then show "namespaces_loop lib api_url nss w = walk_each lib api_url (to_walk nss) w"
    by (rule namespaces_loop_walk_each)
next
  assume run: "fst (namespaces_loop lib api_url nss w) = Returns ()"
  from namespaces_loop_walks [OF run, of False]
  show "walk_starts False (added w (snd (namespaces_loop lib api_url nss w)))
          = map pages_params (to_visit nss)"
    by (auto simp: added_def)
  from namespaces_loop_walks [OF run, of False]
  show "length (saves (added w (snd (namespaces_loop lib api_url nss w))))
          = length (to_visit nss)"
    by (auto simp: added_def)
qed

theorem namespaces_visited_in_order_witness:
  "fst (namespaces_loop example_lib api example_namespaces
          (World [modern_page, last_page, last_page] [] 0)) = Returns ()
   \<and> list_all readable example_namespaces
   \<and> to_visit example_namespaces = [JNum 0, JNum 2]
   \<and> to_walk example_namespaces = [(JNum 0, JStr ''Main''), (JNum 2, JStr ''Talk'')]
   \<and> visited (added (World [modern_page, last_page, last_page] [] 0)
        (snd (namespaces_loop example_lib api example_namespaces
                (World [modern_page, last_page, last_page] [] 0))))
       = [JNum 0, JNum 2]
   \<and> walk_starts False (added (World [modern_page, last_page, last_page] [] 0)
        (snd (namespaces_loop example_lib api example_namespaces
                (World [modern_page, last_page, last_page] [] 0))))
       = [pages_params (JNum 0), pages_params (JNum 2)]
   \<and> length (saves (added (World [modern_page, last_page, last_page] [] 0)
        (snd (namespaces_loop example_lib api example_namespaces
                (World [modern_page, last_page, last_page] [] 0))))) = 2
   \<and> namespaces_loop example_lib api example_namespaces
         (World [modern_page, last_page, last_page] [] 0)
       = walk_each example_lib api [(JNum 0, JStr ''Main''), (JNum 2, JStr ''Talk'')]
           (World [modern_page, last_page, last_page] [] 0)"
proof -
  let ?w = "World [modern_page, last_page, last_page] [] 0"
  have run: "fst (namespaces_loop example_lib api example_namespaces ?w) = Returns ()"
    by (simp add: example_namespaces_def py_negative_def save_items_def run_walk example_replies
        key_eq_def)
  have readable: "list_all readable example_namespaces"
    by (simp add: example_namespaces_def readable_def py_negative_def)
  have ids: "to_visit example_namespaces = [JNum 0, JNum 2]"
    by (simp add: example_namespaces_def py_negative_def)
  have pairs: "to_walk example_namespaces = [(JNum 0, JStr ''Main''), (JNum 2, JStr ''Talk'')]"
    by (simp add: example_namespaces_def py_negative_def)
  note inst = namespaces_visited_in_order [of example_lib api example_namespaces ?w "JNum 0"]
  from inst run have 1: "visited (added ?w (snd (namespaces_loop example_lib api example_namespaces ?w)))
      = to_visit example_namespaces"
    by blast
  from inst run have 2: "walk_starts False
        (added ?w (snd (namespaces_loop example_lib api example_namespaces ?w)))
      = map pages_params (to_visit example_namespaces)"
    and 3: "length (saves (added ?w (snd (namespaces_loop example_lib api example_namespaces ?w))))
      = length (to_visit example_namespaces)"
    by blast+
  from inst readable have 4: "namespaces_loop example_lib api example_namespaces ?w
      = walk_each example_lib api (to_walk example_namespaces) ?w"
    by blast
  from run readable ids pairs 1 2 3 4 show ?thesis
    by simp
qed

text \<open>
  C3. The script declares the flag \<^verbatim>\<open>--delay\<close> and has the global \<^verbatim>\<open>delaySeconds\<close>
  that every pause reads, but nothing assigns the one to the other. A run with
  \<^verbatim>\<open>--delay 5\<close> against the example server completes, and each of its five pauses
  (before the two single-shot queries and once per page of the three walks) lasts 0
  seconds, not 5.
\<close>

theorem delay_flag_is_ignored:
  "fst (script example_lib \<lparr>url = api, delay_flag = Some ''5''\<rparr> example_server) = Returns ()
   \<and> sleeps (trace (snd (script example_lib \<lparr>url = api, delay_flag = Some ''5''\<rparr> example_server)))
       = [0, 0, 0, 0, 0]"
  by (simp add: run_main run_walk run_special example_replies)

end
